theory Spec2Isabelle
  imports Complex_Main
begin

section \<open>Python values, errors and strings\<close>

text \<open>
  Python strings are modelled as lists of 8-bit characters, one \<^typ>\<open>char\<close> per code point
  of the Latin-1 range; \<open>len\<close> is \<^const>\<open>length\<close>. An exception is a value of
  \<^typ>\<open>'a + 'b\<close>: \<open>Inl\<close> carries the exception, \<open>Inr\<close> the returned value.
\<close>

datatype py_error = KeyError | TypeError

text \<open>A dictionary with string values is a record of optional fields: a missing key is
  \<open>None\<close>, \<open>d[k]\<close> raises \<open>KeyError\<close> on it and \<open>d.get(k, v)\<close> yields \<open>v\<close>.\<close>

definition subscript :: "'a option \<Rightarrow> py_error + 'a" where
  "subscript v = (case v of None \<Rightarrow> Inl KeyError | Some x \<Rightarrow> Inr x)"

definition get_or :: "'a option \<Rightarrow> 'a \<Rightarrow> 'a" where
  "get_or v d = (case v of None \<Rightarrow> d | Some x \<Rightarrow> x)"

definition ebind :: "'e + 'a \<Rightarrow> ('a \<Rightarrow> 'e + 'b) \<Rightarrow> 'e + 'b" where
  "ebind m f = (case m of Inl e \<Rightarrow> Inl e | Inr x \<Rightarrow> f x)"

section \<open>Analysed clauses and risk findings\<close>

text \<open>The finding dictionaries built by \<open>_detect_clause_risks\<close> and read by the selector
  and the assessor.\<close>

record risk =
  risk_type :: "string option"
  severity :: "string option"
  category :: "string option"
  description :: "string option"

text \<open>An entry of \<open>detect_ambiguities\<close>.\<close>

record ambiguity =
  a_phrase :: string
  a_context :: string
  a_position :: nat
  a_reason :: string

text \<open>The keys of an analysed clause that the selector and the assessor read.\<close>

record clause =
  clause_id :: "string option"
  clause_type :: "string option"
  risks :: "risk list option"
  ambiguities :: "ambiguity list option"
  original_text :: "string option"

section \<open>Unfavorable-clause selector (\<open>clause_analyzer.py\<close>)\<close>

record unfavorable =
  u_clause_id :: string
  u_clause_type :: string
  reasons :: "string list"
  u_text :: string
  u_severity :: string

text \<open>\<open>[r for r in clause.get("risks", []) if r["severity"] == "HIGH"]\<close>\<close>

fun high_risks_of :: "risk list \<Rightarrow> py_error + risk list" where
  "high_risks_of [] = Inr []"
| "high_risks_of (r # rs) =
     ebind (subscript (severity r)) (\<lambda>s.
     ebind (high_risks_of rs) (\<lambda>hs.
       Inr (if s = ''HIGH'' then r # hs else hs)))"

text \<open>\<open>[r["risk_type"] for r in high_risks]\<close>\<close>

fun risk_types_of :: "risk list \<Rightarrow> py_error + string list" where
  "risk_types_of [] = Inr []"
| "risk_types_of (r # rs) =
     ebind (subscript (risk_type r)) (\<lambda>t.
     ebind (risk_types_of rs) (\<lambda>ts. Inr (t # ts)))"

text \<open>The body of the \<open>for clause in analyzed_clauses\<close> loop: the entries it appends.\<close>

definition unfavorable_step :: "clause \<Rightarrow> py_error + unfavorable list" where
  "unfavorable_step c =
     ebind (high_risks_of (get_or (risks c) [])) (\<lambda>high_risks.
       if high_risks \<noteq> [] then
         ebind (subscript (clause_id c)) (\<lambda>cid.
         ebind (subscript (clause_type c)) (\<lambda>cty.
         ebind (risk_types_of high_risks) (\<lambda>rs.
           Inr [\<lparr>u_clause_id = cid, u_clause_type = cty, reasons = rs,
                 u_text = take 200 (get_or (original_text c) '''') @ ''...'',
                 u_severity = ''HIGH''\<rparr>])))
       else if length (get_or (ambiguities c) []) > 2 then
         ebind (subscript (clause_id c)) (\<lambda>cid.
         ebind (subscript (clause_type c)) (\<lambda>cty.
           Inr [\<lparr>u_clause_id = cid, u_clause_type = cty,
                 reasons = [''Multiple Ambiguous Terms''],
                 u_text = take 200 (get_or (original_text c) '''') @ ''...'',
                 u_severity = ''MEDIUM''\<rparr>]))
       else Inr [])"

fun unfavorable_loop :: "unfavorable list \<Rightarrow> clause list \<Rightarrow> py_error + unfavorable list" where
  "unfavorable_loop acc [] = Inr acc"
| "unfavorable_loop acc (c # cs) =
     ebind (unfavorable_step c) (\<lambda>es. unfavorable_loop (acc @ es) cs)"

definition identify_unfavorable_clauses :: "clause list \<Rightarrow> py_error + unfavorable list" where
  "identify_unfavorable_clauses analyzed_clauses = unfavorable_loop [] analyzed_clauses"

text \<open>The clauses that \<open>analyze_clauses\<close> builds carry an id, a type and findings with a
  severity and a risk type.\<close>

definition wf_risk :: "risk \<Rightarrow> bool" where
  "wf_risk r \<longleftrightarrow> severity r \<noteq> None \<and> risk_type r \<noteq> None"

definition wf_clause :: "clause \<Rightarrow> bool" where
  "wf_clause c \<longleftrightarrow> clause_id c \<noteq> None \<and> clause_type c \<noteq> None \<and>
     list_all wf_risk (get_or (risks c) [])"

definition is_high :: "risk \<Rightarrow> bool" where
  "is_high r \<longleftrightarrow> severity r = Some ''HIGH''"

text \<open>An analysed clause with one HIGH and one MEDIUM finding and three ambiguity
  findings, and a short clause with one HIGH finding.\<close>

definition sample_clause :: clause where
  "sample_clause =
     \<lparr>clause_id = Some ''4.1.'', clause_type = Some ''Liability'',
      risks = Some
        [\<lparr>risk_type = Some ''Unlimited Liability'', severity = Some ''HIGH'',
          category = Some ''liability'',
          description = Some ''Clause contains unlimited liability language''\<rparr>,
         \<lparr>risk_type = Some ''Harsh Penalties'', severity = Some ''MEDIUM'',
          category = Some ''penalty_clauses'',
          description = Some ''Clause contains harsh penalties language''\<rparr>],
      ambiguities = Some
        [\<lparr>a_phrase = ''reasonable'', a_context = ''a reasonable fine may apply promptly'',
          a_position = 2, a_reason = ''Vague or subjective term''\<rparr>,
         \<lparr>a_phrase = ''may'', a_context = ''a reasonable fine may apply promptly'',
          a_position = 18, a_reason = ''Vague or subjective term''\<rparr>,
         \<lparr>a_phrase = ''promptly'', a_context = ''a reasonable fine may apply promptly'',
          a_position = 28, a_reason = ''Vague or subjective term''\<rparr>],
      original_text = Some ''a reasonable fine may apply promptly''\<rparr>"

definition short_clause :: clause where
  "short_clause =
     \<lparr>clause_id = Some ''7.'', clause_type = Some ''Indemnity'',
      risks = Some
        [\<lparr>risk_type = Some ''Broad Indemnity'', severity = Some ''HIGH'',
          category = Some ''indemnity'',
          description = Some ''Clause contains broad indemnity language''\<rparr>],
      ambiguities = Some [],
      original_text = Some ''Vendor shall indemnify and hold harmless the Client.''\<rparr>"

section \<open>Construction of the analysers\<close>

text \<open>
  A call binds its arguments before the body runs, and raises \<open>TypeError\<close> when they do
  not fit the signature. \<open>NLPProcessor.__init__(self)\<close> takes no argument; what its body
  does once entered (loading the spaCy pipeline and the NLTK data) is the parameter
  \<open>body\<close>. \<open>ClauseAnalyzer.__init__(self, nlp=None)\<close> takes at most one argument, by
  position or by the keyword \<open>nlp\<close>.
\<close>

datatype pyval = PyNone | PyObject nat

record nlp_processor =
  nlp :: pyval
  stop_words :: "string list"

definition NLPProcessor ::
  "(py_error + nlp_processor) \<Rightarrow> pyval list \<Rightarrow> (string \<times> pyval) list \<Rightarrow> py_error + nlp_processor" where
  "NLPProcessor body args kwargs =
     (if args = [] \<and> kwargs = [] then body else Inl TypeError)"

definition clause_keywords_table :: "(string \<times> string list) list" where
  "clause_keywords_table =
     [(''Payment Terms'',
         [''payment'', ''fee'', ''compensation'', ''remuneration'', ''salary'',
          ''invoice'', ''due'', ''price'', ''cost'', ''charge'']),
      (''Termination'',
         [''terminate'', ''termination'', ''cancel'', ''cancellation'', ''end'',
          ''expire'', ''cessation'', ''dissolve'', ''dissolution'']),
      (''Indemnity'',
         [''indemnify'', ''indemnification'', ''hold harmless'', ''defend'',
          ''protect'', ''compensate for loss'']),
      (''Confidentiality'',
         [''confidential'', ''secret'', ''proprietary'', ''non-disclosure'',
          ''nda'', ''confidentiality'']),
      (''Intellectual Property'',
         [''intellectual property'', ''copyright'', ''patent'', ''trademark'',
          ''ip rights'', ''ownership'', ''proprietary rights'']),
      (''Liability'',
         [''liability'', ''liable'', ''responsible'', ''responsibility'',
          ''damages'', ''accountable'']),
      (''Dispute Resolution'',
         [''dispute'', ''arbitration'', ''mediation'', ''litigation'',
          ''court'', ''jurisdiction'', ''governing law'']),
      (''Force Majeure'',
         [''force majeure'', ''act of god'', ''unforeseeable'',
          ''beyond control'', ''natural disaster'']),
      (''Warranties'',
         [''warrant'', ''warranty'', ''guarantee'', ''represent'',
          ''representation'', ''assure'', ''certification'']),
      (''Non-compete'',
         [''non-compete'', ''non-competition'', ''restrictive covenant'',
          ''compete'', ''competitive'']),
      (''Auto-Renewal'',
         [''auto-renew'', ''automatic renewal'', ''automatically renew'',
          ''extend'', ''extension'']),
      (''Lock-in Period'',
         [''lock-in'', ''lock in period'', ''minimum term'',
          ''committed period''])]"

record clause_analyzer =
  nlp_processor :: nlp_processor
  clause_keywords :: "(string \<times> string list) list"

definition ClauseAnalyzer ::
  "(py_error + nlp_processor) \<Rightarrow> pyval list \<Rightarrow> (string \<times> pyval) list \<Rightarrow> py_error + clause_analyzer" where
  "ClauseAnalyzer body args kwargs =
     (if length args > 1 then Inl TypeError
      else if \<not> list_all (\<lambda>kv. fst kv = ''nlp'') kwargs then Inl TypeError
      else if args \<noteq> [] \<and> kwargs \<noteq> [] then Inl TypeError
      else
        let nlp = (case args of a # _ \<Rightarrow> a
                   | [] \<Rightarrow> (case kwargs of kv # _ \<Rightarrow> snd kv | [] \<Rightarrow> PyNone))
        in ebind (NLPProcessor body [nlp] [])
             (\<lambda>p. Inr \<lparr>nlp_processor = p, clause_keywords = clause_keywords_table\<rparr>))"

section \<open>Clause classifier (\<open>clause_analyzer.py\<close>)\<close>

text \<open>\<open>str.lower()\<close> on the Latin-1 range: the letters A to Z and the accented capitals
  0xC0 to 0xDE (but not the multiplication sign 0xD7) move up by 32, which sets bit 5 of
  the code; every other character stays.\<close>

definition plus32 :: "char \<Rightarrow> char" where
  "plus32 c = (case c of Char b0 b1 b2 b3 b4 b5 b6 b7 \<Rightarrow> Char b0 b1 b2 b3 b4 True b6 b7)"

definition lower_char :: "char \<Rightarrow> char" where
  "lower_char c =
     (let n = (of_char c :: nat)
      in if (65 \<le> n \<and> n \<le> 90) \<or> (192 \<le> n \<and> n \<le> 222 \<and> n \<noteq> 215)
         then plus32 c else c)"

definition lower :: "string \<Rightarrow> string" where
  "lower s = map lower_char s"

text \<open>\<open>k in s\<close> on strings: \<open>k\<close> occurs in \<open>s\<close> as a contiguous substring.\<close>

fun startswith :: "string \<Rightarrow> string \<Rightarrow> bool" where
  "startswith s [] = True"
| "startswith [] (k # ks) = False"
| "startswith (c # cs) (k # ks) = (c = k \<and> startswith cs ks)"

fun py_in :: "string \<Rightarrow> string \<Rightarrow> bool" where
  "py_in k [] = (k = [])"
| "py_in k (c # cs) = (startswith (c # cs) k \<or> py_in k cs)"

text \<open>A dictionary that is iterated is a list of key-value pairs in insertion order;
  \<open>d[k] = v\<close> replaces the value of a key that is there and appends a new key.\<close>

fun dict_set :: "('k \<times> 'v) list \<Rightarrow> 'k \<Rightarrow> 'v \<Rightarrow> ('k \<times> 'v) list" where
  "dict_set [] k v = [(k, v)]"
| "dict_set (kv # d) k v = (if fst kv = k then (k, v) # d else kv # dict_set d k v)"

text \<open>\<open>sum(1 for keyword in keywords if keyword in clause_lower)\<close>\<close>

definition keyword_score :: "string list \<Rightarrow> string \<Rightarrow> nat" where
  "keyword_score keywords clause_lower =
     sum_list (map (\<lambda>keyword. 1) (filter (\<lambda>keyword. py_in keyword clause_lower) keywords))"

fun type_scores_loop ::
  "(string \<times> nat) list \<Rightarrow> (string \<times> string list) list \<Rightarrow> string \<Rightarrow> (string \<times> nat) list" where
  "type_scores_loop type_scores [] clause_lower = type_scores"
| "type_scores_loop type_scores (item # items) clause_lower =
     (let score = keyword_score (snd item) clause_lower
      in type_scores_loop
           (if score > 0 then dict_set type_scores (fst item) score else type_scores)
           items clause_lower)"

text \<open>\<open>max(iterable, key=...)\<close> on a non-empty iterable: the first element whose key is
  the largest.\<close>

fun max_loop :: "('a \<Rightarrow> nat) \<Rightarrow> 'a \<Rightarrow> 'a list \<Rightarrow> 'a" where
  "max_loop key best [] = best"
| "max_loop key best (x # xs) = max_loop key (if key x > key best then x else best) xs"

definition classify_clause_type :: "clause_analyzer \<Rightarrow> string \<Rightarrow> string" where
  "classify_clause_type self clause_text =
     (let clause_lower = lower clause_text;
          type_scores = type_scores_loop [] (clause_keywords self) clause_lower
      in case type_scores of
           x # xs \<Rightarrow> fst (max_loop snd x xs)
         | [] \<Rightarrow> ''General Provisions'')"

text \<open>The positive entries of the score table, in declaration order.\<close>

definition scored :: "string \<Rightarrow> (string \<times> string list) list \<Rightarrow> (string \<times> nat) list" where
  "scored s items = filter (\<lambda>p. snd p > 0) (map (\<lambda>item. (fst item, keyword_score (snd item) s)) items)"

definition sample_analyzer :: clause_analyzer where
  "sample_analyzer =
     \<lparr>nlp_processor = \<lparr>nlp = PyObject 0, stop_words = [''the'', ''is'']\<rparr>,
      clause_keywords = clause_keywords_table\<rparr>"

section \<open>Risk assessor (\<open>risk_assessor.py\<close>, \<open>config.py\<close>)\<close>

text \<open>
  Python floats: the parameter \<open>fl\<close> is the rounding of an exact result to the nearest
  float, applied after every float operation and to every float literal. Integers are
  exact. The identity is exact arithmetic.
\<close>

definition rounding :: "(real \<Rightarrow> real) \<Rightarrow> bool" where
  "rounding fl \<longleftrightarrow> mono fl \<and> fl 0 = 0 \<and> fl 100 = 100 \<and> (\<forall>x. fl (fl x) = fl x)"

definition RISK_CATEGORIES :: "(string \<times> string) list" where
  "RISK_CATEGORIES =
     [(''penalty_clauses'', ''Penalty Clauses''),
      (''indemnity'', ''Indemnity Clauses''),
      (''unilateral_termination'', ''Unilateral Termination''),
      (''arbitration'', ''Arbitration & Jurisdiction''),
      (''auto_renewal'', ''Auto-Renewal & Lock-in''),
      (''non_compete'', ''Non-compete & IP Transfer''),
      (''payment_terms'', ''Payment Terms''),
      (''liability'', ''Liability Limitations''),
      (''confidentiality'', ''Confidentiality Obligations'')]"

text \<open>\<open>RISK_LEVELS[severity]["score"]\<close>\<close>

definition RISK_LEVELS_score :: "string \<rightharpoonup> int" where
  "RISK_LEVELS_score = map_of [(''LOW'', 1), (''MEDIUM'', 2), (''HIGH'', 3)]"

text \<open>\<open>self.risk_weights.get(category, 1.0)\<close>\<close>

definition risk_weights :: "(real \<Rightarrow> real) \<Rightarrow> (string \<times> real) list" where
  "risk_weights fl =
     [(''penalty_clauses'', fl 1.2),
      (''indemnity'', fl 1.5),
      (''unilateral_termination'', fl 1.8),
      (''arbitration'', fl 1.0),
      (''auto_renewal'', fl 1.3),
      (''non_compete'', fl 1.4),
      (''payment_terms'', fl 1.2),
      (''liability'', fl 1.6),
      (''confidentiality'', fl 0.8)]"

definition weight_of :: "(real \<Rightarrow> real) \<Rightarrow> string \<Rightarrow> real" where
  "weight_of fl cat = get_or (map_of (risk_weights fl) cat) (fl 1.0)"

record breakdown_entry =
  b_clause_id :: string
  b_risk_type :: string
  b_severity :: string
  score :: real
  b_description :: string

type_synonym breakdown = "(string \<times> breakdown_entry list) list"

text \<open>\<open>{category: [] for category in RISK_CATEGORIES.keys()}\<close>, then \<open>"other"\<close>.\<close>

definition initial_breakdown :: breakdown where
  "initial_breakdown = map (\<lambda>kv. (fst kv, [])) RISK_CATEGORIES @ [(''other'', [])]"

text \<open>\<open>risk_breakdown[category].append(entry)\<close>: \<open>KeyError\<close> when the key is missing.\<close>

fun dict_append :: "breakdown \<Rightarrow> string \<Rightarrow> breakdown_entry \<Rightarrow> py_error + breakdown" where
  "dict_append [] k e = Inl KeyError"
| "dict_append (kv # d) k e =
     (if fst kv = k then Inr ((fst kv, snd kv @ [e]) # d)
      else ebind (dict_append d k e) (\<lambda>d'. Inr (kv # d')))"

text \<open>The body of \<open>for risk in clause_risks\<close>, on the running total and the breakdown.\<close>

definition risk_step ::
  "(real \<Rightarrow> real) \<Rightarrow> clause \<Rightarrow> real \<times> breakdown \<Rightarrow> risk \<Rightarrow> py_error + real \<times> breakdown" where
  "risk_step fl cl st risk =
     (let cat = get_or (category risk) ''other'';
          sev = get_or (severity risk) ''MEDIUM''
      in ebind (subscript (RISK_LEVELS_score sev)) (\<lambda>severity_score.
           let weight = weight_of fl cat;
               risk_score = fl (of_int severity_score * weight);
               total_risk_score = fl (fst st + risk_score)
           in ebind (dict_append (snd st) cat
                       \<lparr>b_clause_id = get_or (clause_id cl) ''Unknown'',
                        b_risk_type = get_or (risk_type risk) ''Unknown Risk'',
                        b_severity = sev,
                        score = risk_score,
                        b_description = get_or (description risk) ''''\<rparr>)
                (\<lambda>bd. Inr (total_risk_score, bd))))"

fun risks_loop ::
  "(real \<Rightarrow> real) \<Rightarrow> clause \<Rightarrow> real \<times> breakdown \<Rightarrow> risk list \<Rightarrow> py_error + real \<times> breakdown" where
  "risks_loop fl cl st [] = Inr st"
| "risks_loop fl cl st (risk # rs) = ebind (risk_step fl cl st risk) (\<lambda>st'. risks_loop fl cl st' rs)"

fun clauses_loop ::
  "(real \<Rightarrow> real) \<Rightarrow> real \<times> breakdown \<Rightarrow> clause list \<Rightarrow> py_error + real \<times> breakdown" where
  "clauses_loop fl st [] = Inr st"
| "clauses_loop fl st (cl # cls) =
     ebind (risks_loop fl cl st (get_or (risks cl) [])) (\<lambda>st'. clauses_loop fl st' cls)"

record llm_risk =
  l_type :: "string option"
  l_severity :: "string option"
  l_description :: "string option"
  l_impact :: "string option"

definition categorize_llm_risk :: "string \<Rightarrow> string" where
  "categorize_llm_risk rtype =
     (let risk_type_lower = lower rtype
      in if py_in ''payment'' risk_type_lower \<or> py_in ''fee'' risk_type_lower then ''payment_terms''
         else if py_in ''terminat'' risk_type_lower then ''unilateral_termination''
         else if py_in ''indemnity'' risk_type_lower \<or> py_in ''indemnif'' risk_type_lower then ''indemnity''
         else if py_in ''liability'' risk_type_lower \<or> py_in ''liable'' risk_type_lower then ''liability''
         else if py_in ''penalty'' risk_type_lower \<or> py_in ''penalt'' risk_type_lower then ''penalty_clauses''
         else if py_in ''compete'' risk_type_lower \<or> py_in ''non-compete'' risk_type_lower then ''non_compete''
         else if py_in ''renewal'' risk_type_lower \<or> py_in ''renew'' risk_type_lower then ''auto_renewal''
         else if py_in ''arbitration'' risk_type_lower \<or> py_in ''jurisdiction'' risk_type_lower then ''arbitration''
         else if py_in ''confidential'' risk_type_lower then ''confidentiality''
         else ''other'')"

text \<open>The body of \<open>for risk in llm_risks\<close>;
  \<open>RISK_LEVELS.get(severity, RISK_LEVELS["MEDIUM"])["score"]\<close> falls back to MEDIUM.\<close>

definition llm_step ::
  "(real \<Rightarrow> real) \<Rightarrow> real \<times> breakdown \<Rightarrow> llm_risk \<Rightarrow> py_error + real \<times> breakdown" where
  "llm_step fl st risk =
     (let sev = get_or (l_severity risk) ''MEDIUM'';
          rtype = get_or (l_type risk) ''General Risk'';
          cat = categorize_llm_risk rtype;
          severity_score = get_or (RISK_LEVELS_score sev) 2;
          weight = weight_of fl cat;
          risk_score = fl (of_int severity_score * weight);
          total_risk_score = fl (fst st + risk_score)
      in ebind (dict_append (snd st) cat
                  \<lparr>b_clause_id = ''LLM Analysis'',
                   b_risk_type = rtype,
                   b_severity = sev,
                   score = risk_score,
                   b_description = get_or (l_description risk) ''''\<rparr>)
           (\<lambda>bd. Inr (total_risk_score, bd)))"

fun llm_loop ::
  "(real \<Rightarrow> real) \<Rightarrow> real \<times> breakdown \<Rightarrow> llm_risk list \<Rightarrow> py_error + real \<times> breakdown" where
  "llm_loop fl st [] = Inr st"
| "llm_loop fl st (risk # rs) = ebind (llm_step fl st risk) (\<lambda>st'. llm_loop fl st' rs)"

definition determine_risk_level :: "real \<Rightarrow> string" where
  "determine_risk_level sc =
     (if sc \<ge> 70 then ''HIGH'' else if sc \<ge> 40 then ''MEDIUM'' else ''LOW'')"

text \<open>\<open>round(x, 2)\<close> on a float: the exact value is rounded to two decimals, a tie going
  to the even last digit, and the result is the nearest float.\<close>

definition round_half_even :: "real \<Rightarrow> int" where
  "round_half_even x =
     (let f = \<lfloor>x\<rfloor>; d = x - of_int f
      in if d < 1/2 then f else if d > 1/2 then f + 1 else if even f then f else f + 1)"

definition py_round2 :: "(real \<Rightarrow> real) \<Rightarrow> real \<Rightarrow> real" where
  "py_round2 fl x = fl (of_int (round_half_even (x * 100)) / 100)"

record high_priority =
  h_category :: string
  h_risk_type :: string
  h_clause_id :: string
  h_description :: string

definition get_high_priority_risks :: "breakdown \<Rightarrow> high_priority list" where
  "get_high_priority_risks bd =
     concat (map (\<lambda>kv.
        map (\<lambda>r. \<lparr>h_category = get_or (map_of RISK_CATEGORIES (fst kv)) (fst kv),
                   h_risk_type = b_risk_type r,
                   h_clause_id = b_clause_id r,
                   h_description = b_description r\<rparr>)
          (filter (\<lambda>r. b_severity r = ''HIGH'') (snd kv))) bd)"

record assessment =
  overall_score :: real
  overall_level :: string
  total_risks_found :: nat
  risk_breakdown :: breakdown
  high_priority_risks :: "high_priority list"

text \<open>\<open>assess_contract_risk\<close>. The normalised score is the integer 0 without clauses and
  the integer 100 when the scaled average is not below 100, a float otherwise. The
  \<open>risk_summary\<close> and \<open>recommendation\<close> texts of the result are left out.\<close>

definition assess_contract_risk ::
  "(real \<Rightarrow> real) \<Rightarrow> clause list \<Rightarrow> llm_risk list option \<Rightarrow> py_error + assessment" where
  "assess_contract_risk fl analyzed_clauses llm_risks =
     (let clause_count = length analyzed_clauses
      in ebind (clauses_loop fl (0, initial_breakdown) analyzed_clauses) (\<lambda>st.
         ebind (llm_loop fl st (get_or llm_risks [])) (\<lambda>st'.
           let total_risk_score = fst st';
               bd = snd st';
               avg_risk_per_clause = fl (total_risk_score / of_nat clause_count);
               scaled = fl (avg_risk_per_clause * 20);
               normalized_score = (if clause_count > 0 then (if scaled < 100 then scaled else 100) else 0);
               overall_risk_level = determine_risk_level normalized_score
           in Inr \<lparr>overall_score =
                      (if clause_count > 0 \<and> scaled < 100 then py_round2 fl normalized_score
                       else normalized_score),
                    overall_level = overall_risk_level,
                    total_risks_found = sum_list (map (\<lambda>kv. length (snd kv)) bd),
                    risk_breakdown = bd,
                    high_priority_risks = get_high_priority_risks bd\<rparr>)))"

text \<open>A finding that the clause loop processes without an exception: its severity (MEDIUM
  when absent) is a key of \<open>RISK_LEVELS\<close> and its category (\<open>other\<close> when absent) is a key
  of the breakdown.\<close>

definition valid_risk :: "risk \<Rightarrow> bool" where
  "valid_risk r \<longleftrightarrow>
     RISK_LEVELS_score (get_or (severity r) ''MEDIUM'') \<noteq> None \<and>
     get_or (category r) ''other'' \<in> set (map fst initial_breakdown)"

definition risk_score_of :: "(real \<Rightarrow> real) \<Rightarrow> risk \<Rightarrow> real" where
  "risk_score_of fl r =
     fl (of_int (get_or (RISK_LEVELS_score (get_or (severity r) ''MEDIUM'')) 2) *
         weight_of fl (get_or (category r) ''other''))"

definition llm_score_of :: "(real \<Rightarrow> real) \<Rightarrow> llm_risk \<Rightarrow> real" where
  "llm_score_of fl r =
     fl (of_int (get_or (RISK_LEVELS_score (get_or (l_severity r) ''MEDIUM'')) 2) *
         weight_of fl (categorize_llm_risk (get_or (l_type r) ''General Risk'')))"

definition all_risks :: "clause list \<Rightarrow> risk list" where
  "all_risks cls = concat (map (\<lambda>cl. get_or (risks cl) []) cls)"

text \<open>The returned score as a function of the clause count and the total.\<close>

definition score_of_total :: "(real \<Rightarrow> real) \<Rightarrow> nat \<Rightarrow> real \<Rightarrow> real" where
  "score_of_total fl n t =
     (let scaled = fl (fl (t / of_nat n) * 20)
      in if n > 0 then (if scaled < 100 then py_round2 fl scaled else 100) else 0)"

text \<open>The breakdown entry that the LLM loop appends for a risk.\<close>

definition llm_entry :: "(real \<Rightarrow> real) \<Rightarrow> llm_risk \<Rightarrow> breakdown_entry" where
  "llm_entry fl r =
     \<lparr>b_clause_id = ''LLM Analysis'',
      b_risk_type = get_or (l_type r) ''General Risk'',
      b_severity = get_or (l_severity r) ''MEDIUM'',
      score = llm_score_of fl r,
      b_description = get_or (l_description r) ''''\<rparr>"

definition llm_category :: "llm_risk \<Rightarrow> string" where
  "llm_category r = categorize_llm_risk (get_or (l_type r) ''General Risk'')"

text \<open>Sample inputs of the assessor.\<close>

definition plain_clause :: clause where
  "plain_clause =
     \<lparr>clause_id = Some ''1.'', clause_type = Some ''General Provisions'',
      risks = Some [], ambiguities = Some [],
      original_text = Some ''This Agreement is made between the Vendor and the Client.''\<rparr>"

definition liability_finding :: risk where
  "liability_finding =
     \<lparr>risk_type = Some ''Unlimited Liability'', severity = Some ''HIGH'',
      category = Some ''liability'',
      description = Some ''Clause contains unlimited liability language''\<rparr>"

definition critical_llm_risk :: llm_risk where
  "critical_llm_risk =
     \<lparr>l_type = Some ''Late payment exposure'', l_severity = Some ''CRITICAL'',
      l_description = Some ''Interest accrues without a cap'', l_impact = Some ''Cash flow''\<rparr>"

section \<open>Regular expressions (\<open>re\<close>)\<close>

text \<open>
  The patterns of the segmenter and of the risk detector, with the backtracking semantics
  of \<open>re\<close>: a match attempt yields the possible outcomes in the order in which the
  backtracking search reaches them, and the first one is the match.
\<close>

datatype cset = Range char char | NotChar char | Digit | Space

datatype regex =
    Lit string
  | Set cset
  | Seq regex regex
  | Alt regex regex
  | Star regex
  | LazyStar regex
  | Group nat regex
  | Ahead regex
  | Bol
  | Eos
  | WordB

definition code :: "char \<Rightarrow> nat" where
  "code c = of_char c"

text \<open>\<open>\s\<close>, \<open>\d\<close> and the word characters of \<open>\b\<close> for \<open>str\<close> patterns, on the Latin-1
  range.\<close>

definition space_code :: "nat \<Rightarrow> bool" where
  "space_code n \<longleftrightarrow> (9 \<le> n \<and> n \<le> 13) \<or> (28 \<le> n \<and> n \<le> 32) \<or> n = 133 \<or> n = 160"

definition is_space :: "char \<Rightarrow> bool" where
  "is_space c = space_code (code c)"

definition digit_code :: "nat \<Rightarrow> bool" where
  "digit_code n \<longleftrightarrow> 48 \<le> n \<and> n \<le> 57"

definition is_digit :: "char \<Rightarrow> bool" where
  "is_digit c = digit_code (code c)"

definition word_code :: "nat \<Rightarrow> bool" where
  "word_code n \<longleftrightarrow>
     (48 \<le> n \<and> n \<le> 57) \<or> (65 \<le> n \<and> n \<le> 90) \<or> n = 95 \<or> (97 \<le> n \<and> n \<le> 122) \<or>
     n = 170 \<or> n = 178 \<or> n = 179 \<or> n = 181 \<or> n = 185 \<or> n = 186 \<or>
     (188 \<le> n \<and> n \<le> 190) \<or> (192 \<le> n \<and> n \<le> 214) \<or> (216 \<le> n \<and> n \<le> 246) \<or>
     (248 \<le> n \<and> n \<le> 255)"

definition is_word :: "char \<Rightarrow> bool" where
  "is_word c = word_code (code c)"

definition between :: "nat \<Rightarrow> nat \<Rightarrow> nat \<Rightarrow> bool" where
  "between lo hi n \<longleftrightarrow> lo \<le> n \<and> n \<le> hi"

fun in_cset :: "cset \<Rightarrow> char \<Rightarrow> bool" where
  "in_cset (Range a b) c = between (code a) (code b) (code c)"
| "in_cset (NotChar a) c = (c \<noteq> a)"
| "in_cset Digit c = is_digit c"
| "in_cset Space c = is_space c"

text \<open>The state of a match attempt: the character before the current position (none at
  the start of the string), the text from the current position on, the groups so far.\<close>

record mstate =
  m_prev :: "char option"
  m_rest :: string
  m_groups :: "(nat \<times> string) list"

definition word_before :: "mstate \<Rightarrow> bool" where
  "word_before st = (case m_prev st of None \<Rightarrow> False | Some c \<Rightarrow> is_word c)"

definition word_after :: "mstate \<Rightarrow> bool" where
  "word_after st = (case m_rest st of [] \<Rightarrow> False | c # _ \<Rightarrow> is_word c)"

definition consume :: "nat \<Rightarrow> mstate \<Rightarrow> mstate" where
  "consume n st =
     (if n = 0 then st
      else st\<lparr>m_prev := Some (m_rest st ! (n - 1)), m_rest := drop n (m_rest st)\<rparr>)"

function rmatch :: "regex \<Rightarrow> mstate \<Rightarrow> mstate list" where
  "rmatch (Lit s) st = (if startswith (m_rest st) s then [consume (length s) st] else [])"
| "rmatch (Set cs) st =
     (case m_rest st of
        [] \<Rightarrow> []
      | c # _ \<Rightarrow> if in_cset cs c then [consume 1 st] else [])"
| "rmatch (Seq a b) st = concat (map (rmatch b) (rmatch a st))"
| "rmatch (Alt a b) st = rmatch a st @ rmatch b st"
| "rmatch (Star r) st =
     concat (map (\<lambda>st'. if length (m_rest st') < length (m_rest st) then rmatch (Star r) st' else [])
               (rmatch r st)) @ [st]"
| "rmatch (LazyStar r) st =
     st # concat (map (\<lambda>st'. if length (m_rest st') < length (m_rest st) then rmatch (LazyStar r) st' else [])
               (rmatch r st))"
| "rmatch (Group n r) st =
     map (\<lambda>st'. st'\<lparr>m_groups :=
                   (n, take (length (m_rest st) - length (m_rest st')) (m_rest st)) #
                   filter (\<lambda>g. fst g \<noteq> n) (m_groups st')\<rparr>)
       (rmatch r st)"
| "rmatch (Ahead r) st = (if rmatch r st \<noteq> [] then [st] else [])"
| "rmatch Bol st = (if m_prev st = None \<or> m_prev st = Some (CHR 0x0A) then [st] else [])"
| "rmatch Eos st = (if m_rest st = [] then [st] else [])"
| "rmatch WordB st = (if word_before st \<noteq> word_after st then [st] else [])"
  by pat_completeness auto
termination
  by (relation "measures [\<lambda>(r, st). size r, \<lambda>(r, st). length (m_rest st)]") auto

text \<open>\<open>re.search\<close>: the first match at the leftmost position where one exists.\<close>

fun search_from :: "regex \<Rightarrow> char option \<Rightarrow> string \<Rightarrow> mstate option" where
  "search_from r p s =
     (case rmatch r \<lparr>m_prev = p, m_rest = s, m_groups = []\<rparr> of
        st # _ \<Rightarrow> Some st
      | [] \<Rightarrow> (case s of [] \<Rightarrow> None | c # cs \<Rightarrow> search_from r (Some c) cs))"

definition re_search :: "regex \<Rightarrow> string \<Rightarrow> mstate option" where
  "re_search r s = search_from r None s"

text \<open>\<open>r+\<close>, \<open>r+?\<close>, \<open>r?\<close>, and sequences and alternations of several parts.\<close>

definition Plus :: "regex \<Rightarrow> regex" where
  "Plus r = Seq r (Star r)"

definition LazyPlus :: "regex \<Rightarrow> regex" where
  "LazyPlus r = Seq r (LazyStar r)"

definition Opt :: "regex \<Rightarrow> regex" where
  "Opt r = Alt r (Lit [])"

fun Seqs :: "regex list \<Rightarrow> regex" where
  "Seqs [] = Lit []"
| "Seqs [r] = r"
| "Seqs (r # rs) = Seq r (Seqs rs)"

fun Alts :: "regex list \<Rightarrow> regex" where
  "Alts [] = Lit []"
| "Alts [r] = r"
| "Alts (r # rs) = Alt r (Alts rs)"

definition ws :: regex where
  "ws = Plus (Set Space)"

section \<open>Risk detector (\<open>clause_analyzer.py\<close>)\<close>

record risk_pattern =
  rp_name :: string
  rp_pattern :: regex
  rp_severity :: string
  rp_category :: string

text \<open>The \<open>risk_patterns\<close> dictionary of \<open>_detect_clause_risks\<close>, in its order.\<close>

definition risk_patterns :: "risk_pattern list" where
  "risk_patterns =
     [\<lparr>rp_name = ''Unlimited Liability'',
       rp_pattern =
         Seqs [WordB,
               Group 1 (Alts [Lit ''unlimited'', Lit ''without limit'', Lit ''no cap'', Lit ''uncapped'']),
               ws, Alts [Lit ''liability'', Lit ''damages'', Lit ''obligation'']],
       rp_severity = ''HIGH'', rp_category = ''liability''\<rparr>,
      \<lparr>rp_name = ''Harsh Penalties'',
       rp_pattern =
         Seqs [WordB,
               Group 1 (Alts [Lit ''penalty'', Lit ''liquidated damages'', Lit ''forfeit'', Lit ''fine'']),
               WordB],
       rp_severity = ''MEDIUM'', rp_category = ''penalty_clauses''\<rparr>,
      \<lparr>rp_name = ''Unilateral Termination'',
       rp_pattern =
         Seqs [WordB, Alts [Lit ''may'', Lit ''can'', Lit ''shall''], ws, Lit ''terminate'', ws,
               Alts [Lit ''at'', Lit ''with''], ws,
               Alts [Seqs [Lit ''any'', ws, Lit ''time''], Lit ''will'', Lit ''discretion'']],
       rp_severity = ''HIGH'', rp_category = ''unilateral_termination''\<rparr>,
      \<lparr>rp_name = ''Auto-Renewal'',
       rp_pattern =
         Seqs [WordB, Alts [Lit ''automatically'', Lit ''auto''], ws,
               Alts [Lit ''renew'', Lit ''extend'', Lit ''continue'']],
       rp_severity = ''MEDIUM'', rp_category = ''auto_renewal''\<rparr>,
      \<lparr>rp_name = ''Broad Indemnity'',
       rp_pattern =
         Seqs [WordB, Lit ''indemnify'', ws,
               Alts [Seqs [Lit ''and'', ws, Lit ''hold'', ws, Lit ''harmless''],
                     Seqs [Lit ''from'', ws, Alts [Lit ''any'', Lit ''all'']]]],
       rp_severity = ''HIGH'', rp_category = ''indemnity''\<rparr>,
      \<lparr>rp_name = ''IP Transfer'',
       rp_pattern =
         Seqs [WordB, Alts [Lit ''transfer'', Lit ''assign'', Lit ''convey''], ws,
               Opt (Alts [Lit ''all'', Lit ''any'']), Star (Set Space),
               Alts [Seqs [Lit ''intellectual'', ws, Lit ''property''], Lit ''ip'',
                     Lit ''copyright'', Lit ''patent'']],
       rp_severity = ''HIGH'', rp_category = ''non_compete''\<rparr>,
      \<lparr>rp_name = ''Non-Compete'',
       rp_pattern =
         Alts [Seqs [WordB, Lit ''non-compete''],
               Seqs [Lit ''restrictive'', ws, Lit ''covenant''],
               Seqs [Lit ''not'', ws, Lit ''compete'']],
       rp_severity = ''MEDIUM'', rp_category = ''non_compete''\<rparr>,
      \<lparr>rp_name = ''Late Payment'',
       rp_pattern =
         Seqs [WordB, Alts [Lit ''interest'', Lit ''penalty'', Lit ''charge''], ws,
               Alts [Lit ''on'', Lit ''for''], ws,
               Alts [Lit ''late'', Lit ''delayed'', Lit ''overdue''], ws, Lit ''payment''],
       rp_severity = ''MEDIUM'', rp_category = ''payment_terms''\<rparr>,
      \<lparr>rp_name = ''Jurisdiction Issues'',
       rp_pattern =
         Seqs [WordB, Alts [Lit ''exclusive'', Lit ''sole''], ws, Lit ''jurisdiction''],
       rp_severity = ''MEDIUM'', rp_category = ''arbitration''\<rparr>,
      \<lparr>rp_name = ''Liability Limitation'',
       rp_pattern =
         Seqs [WordB, Alts [Lit ''not'', Lit ''no'', Lit ''limited''], ws,
               Alts [Lit ''liable'', Lit ''responsibility'', Lit ''obligation'']],
       rp_severity = ''MEDIUM'', rp_category = ''liability''\<rparr>]"

text \<open>The loop \<open>for risk_name, risk_info in risk_patterns.items()\<close>.\<close>

fun pattern_risks :: "risk_pattern list \<Rightarrow> string \<Rightarrow> risk list" where
  "pattern_risks [] clause_lower = []"
| "pattern_risks (p # ps) clause_lower =
     (if re_search (rp_pattern p) clause_lower \<noteq> None
      then [\<lparr>risk_type = Some (rp_name p), severity = Some (rp_severity p),
              category = Some (rp_category p),
              description = Some (''Clause contains '' @ lower (rp_name p) @ '' language'')\<rparr>]
      else []) @ pattern_risks ps clause_lower"

definition detect_clause_risks :: "string \<Rightarrow> string \<Rightarrow> risk list" where
  "detect_clause_risks clause_text ctype =
     (let clause_lower = lower clause_text
      in pattern_risks risk_patterns clause_lower @
         (if ctype = ''Termination'' \<and>
             (py_in ''without cause'' clause_lower \<or> py_in ''at will'' clause_lower)
          then [\<lparr>risk_type = Some ''Termination Without Cause'', severity = Some ''HIGH'',
                  category = Some ''unilateral_termination'',
                  description = Some ''Contract can be terminated without specific cause''\<rparr>]
          else []) @
         (if ctype = ''Payment Terms'' \<and>
             (py_in ''advance'' clause_lower \<or> py_in ''upfront'' clause_lower)
          then [\<lparr>risk_type = Some ''Advance Payment'', severity = Some ''MEDIUM'',
                  category = Some ''payment_terms'',
                  description = Some ''Requires advance or upfront payment''\<rparr>]
          else []))"

section \<open>Clause segmenter (\<open>nlp_processor.py\<close>)\<close>

text \<open>\<open>re.finditer\<close>: the matches from left to right, each search starting where the
  previous match ended (one character further after an empty match).\<close>

function finditer_from :: "regex \<Rightarrow> char option \<Rightarrow> string \<Rightarrow> mstate list" where
  "finditer_from r p s =
     (case search_from r p s of
        None \<Rightarrow> []
      | Some st \<Rightarrow>
          st # (if length (m_rest st) < length s then finditer_from r (m_prev st) (m_rest st)
                else (case s of [] \<Rightarrow> [] | c # cs \<Rightarrow> finditer_from r (Some c) cs)))"
  by pat_completeness auto
termination
  by (relation "measure (\<lambda>(r, p, s). length s)") auto

definition re_finditer :: "regex \<Rightarrow> string \<Rightarrow> mstate list" where
  "re_finditer r s = finditer_from r None s"

text \<open>\<open>match.group(n)\<close> of a group that took part in the match.\<close>

definition group :: "mstate \<Rightarrow> nat \<Rightarrow> string" where
  "group m n = get_or (map_of (m_groups m) n) []"

definition upper_AZ :: regex where
  "upper_AZ = Set (Range CHR ''A'' CHR ''Z'')"

definition lower_az :: regex where
  "lower_az = Set (Range CHR ''a'' CHR ''z'')"

definition not_newline :: regex where
  "not_newline = Set (NotChar CHR 0x0A)"

definition newline :: regex where
  "newline = Lit [CHR 0x0A]"

definition numbered_pattern :: regex where
  "numbered_pattern =
     Seqs [Alt Bol newline,
           Group 1 (Seqs [Plus (Set Digit), Lit ''.'',
                          Star (Seq (Plus (Set Digit)) (Opt (Lit ''.'')))]),
           ws,
           Group 2 (Seq upper_AZ (LazyPlus not_newline)),
           Ahead (Alts [Seqs [newline, Plus (Set Digit), Lit ''.''],
                        Seqs [newline, upper_AZ, upper_AZ, upper_AZ, Star upper_AZ],
                        Eos])]"

definition lettered_pattern :: regex where
  "lettered_pattern =
     Seqs [Alt Bol newline,
           Group 1 (Seq lower_az (Lit '')'')),
           ws,
           Group 2 (LazyPlus not_newline),
           Ahead (Alts [Seqs [newline, lower_az, Lit '')''],
                        Seqs [newline, Plus (Set Digit), Lit ''.''],
                        Eos])]"

text \<open>\<open>str.strip()\<close>, \<open>str.split('\n\n')\<close> and \<open>str(n)\<close> for a natural number.\<close>

definition strip :: "string \<Rightarrow> string" where
  "strip s = rev (dropWhile is_space (rev (dropWhile is_space s)))"

fun split_loop :: "string \<Rightarrow> string \<Rightarrow> string list" where
  "split_loop cur [] = [cur]"
| "split_loop cur [c] = [cur @ [c]]"
| "split_loop cur (c # d # s) =
     (if c = CHR 0x0A \<and> d = CHR 0x0A then cur # split_loop [] s
      else split_loop (cur @ [c]) (d # s))"

definition split_blank_lines :: "string \<Rightarrow> string list" where
  "split_blank_lines s = split_loop [] s"

fun str_nat :: "nat \<Rightarrow> string" where
  "str_nat n =
     (if n < 10 then [''0123456789'' ! n]
      else str_nat (n div 10) @ [''0123456789'' ! (n mod 10)])"

record segment =
  s_clause_id :: string
  s_text :: string
  s_type :: string

text \<open>The loop \<open>for i, para in enumerate(paragraphs)\<close>.\<close>

fun paragraphs_loop :: "nat \<Rightarrow> string list \<Rightarrow> segment list" where
  "paragraphs_loop i [] = []"
| "paragraphs_loop i (para # paragraphs) =
     (if strip para \<noteq> [] \<and> length (strip para) > 50
      then [\<lparr>s_clause_id = ''P'' @ str_nat (i + 1), s_text = strip para, s_type = ''paragraph''\<rparr>]
      else []) @ paragraphs_loop (i + 1) paragraphs"

definition extract_clauses :: "string \<Rightarrow> segment list" where
  "extract_clauses txt =
     (let numbered =
            map (\<lambda>m. \<lparr>s_clause_id = group m 1, s_text = strip (group m 2), s_type = ''numbered''\<rparr>)
              (re_finditer numbered_pattern txt);
          lettered =
            map (\<lambda>m. \<lparr>s_clause_id = group m 1, s_text = strip (group m 2), s_type = ''lettered''\<rparr>)
              (re_finditer lettered_pattern txt);
          clauses = numbered @ lettered
      in if clauses = [] then paragraphs_loop 0 (split_blank_lines txt) else clauses)"

text \<open>Sample documents: a numbered clause with a body on the following lines; a single
  paragraph of exactly 50 characters; a short paragraph followed by a long one.\<close>

definition multiline_document :: string where
  "multiline_document =
     ''1. Payment Terms'' @ [CHR 0x0A] @
     ''The Buyer shall pay all invoices within thirty days.'' @ [CHR 0x0A] @
     ''2. Term'' @ [CHR 0x0A] @
     ''One year.''"

definition fifty_document :: string where
  "fifty_document = ''The Vendor shall deliver the goods within ten days''"

definition two_paragraph_document :: string where
  "two_paragraph_document =
     ''Short intro.'' @ [CHR 0x0A, CHR 0x0A] @
     ''The Vendor shall deliver the goods within ten days of the order date.''"

text \<open>The parts of \<open>split('\n\n')\<close>, joined again by blank lines, give the text back.\<close>

fun join_blank :: "string list \<Rightarrow> string" where
  "join_blank [] = []"
| "join_blank [x] = x"
| "join_blank (x # y # ys) = x @ [CHR 0x0A, CHR 0x0A] @ join_blank (y # ys)"

(* END OF DEFINITIONS *)

section \<open>Properties of the selector\<close>

lemma ebind_Inr [simp]: "ebind (Inr x) f = f x"
  by (simp add: ebind_def)

lemma ebind_Inl [simp]: "ebind (Inl e) f = Inl e"
  by (simp add: ebind_def)

lemma subscript_Some [simp]: "subscript (Some x) = Inr x"
  by (simp add: subscript_def)

lemma subscript_None [simp]: "subscript None = Inl KeyError"
  by (simp add: subscript_def)

lemma get_or_simps [simp]: "get_or None d = d" "get_or (Some x) d = x"
  by (simp_all add: get_or_def)

lemma high_risks_of_wf:
  "list_all wf_risk rs \<Longrightarrow> high_risks_of rs = Inr (filter is_high rs)"
  by (induction rs) (auto simp: wf_risk_def is_high_def)

lemma risk_types_of_wf:
  "list_all wf_risk rs \<Longrightarrow> \<exists>ts. risk_types_of rs = Inr ts \<and> map Some ts = map risk_type rs"
  by (induction rs) (auto simp: wf_risk_def)

lemma list_all_filter: "list_all P xs \<Longrightarrow> list_all P (filter Q xs)"
  by (induction xs) auto

lemma unfavorable_step_high:
  assumes wf: "wf_clause c"
    and high: "filter is_high (get_or (risks c) []) \<noteq> []"
  shows "\<exists>e. unfavorable_step c = Inr [e] \<and> u_severity e = ''HIGH'' \<and>
           map Some (reasons e) = map risk_type (filter is_high (get_or (risks c) [])) \<and>
           Some (u_clause_id e) = clause_id c \<and> Some (u_clause_type e) = clause_type c \<and>
           u_text e = take 200 (get_or (original_text c) '''') @ ''...''"
proof -
  let ?rs = "get_or (risks c) []"
  from wf have all: "list_all wf_risk ?rs"
    by (simp add: wf_clause_def)
  then have hr: "high_risks_of ?rs = Inr (filter is_high ?rs)"
    by (rule high_risks_of_wf)
  from all have "list_all wf_risk (filter is_high ?rs)"
    by (rule list_all_filter)
  then obtain ts where ts: "risk_types_of (filter is_high ?rs) = Inr ts"
      "map Some ts = map risk_type (filter is_high ?rs)"
    using risk_types_of_wf by blast
  from wf obtain cid cty where ids: "clause_id c = Some cid" "clause_type c = Some cty"
    by (auto simp: wf_clause_def)
  show ?thesis
    using hr high ts ids by (simp add: unfavorable_step_def)
qed

lemma unfavorable_step_wf:
  assumes "wf_clause c"
  shows "\<exists>es. unfavorable_step c = Inr es"
proof (cases "filter is_high (get_or (risks c) []) = []")
  case True
  moreover from assms have "high_risks_of (get_or (risks c) []) = Inr (filter is_high (get_or (risks c) []))"
    by (simp add: wf_clause_def high_risks_of_wf)
  moreover from assms obtain cid cty where "clause_id c = Some cid" "clause_type c = Some cty"
    by (auto simp: wf_clause_def)
  ultimately show ?thesis
    by (simp add: unfavorable_step_def)
next
  case False
  with assms unfavorable_step_high show ?thesis by blast
qed

lemma unfavorable_loop_acc:
  "unfavorable_loop acc cs = ebind (unfavorable_loop [] cs) (\<lambda>es. Inr (acc @ es))"
proof (induction cs arbitrary: acc)
  case Nil
  show ?case by simp
next
  case (Cons c cs)
  show ?case
  proof (cases "unfavorable_step c")
    case (Inl e)
    then show ?thesis by simp
  next
    case (Inr es)
    have "unfavorable_loop (acc @ es) cs = ebind (unfavorable_loop [] cs) (\<lambda>fs. Inr ((acc @ es) @ fs))"
      by (rule Cons.IH)
    moreover have "unfavorable_loop es cs = ebind (unfavorable_loop [] cs) (\<lambda>fs. Inr (es @ fs))"
      using Cons.IH [of "[] @ es"] by simp
    ultimately show ?thesis
      using Inr by (cases "unfavorable_loop [] cs") simp_all
  qed
qed

lemma unfavorable_loop_wf:
  "list_all wf_clause cs \<Longrightarrow> \<exists>out. unfavorable_loop [] cs = Inr out"
proof (induction cs)
  case Nil
  show ?case by simp
next
  case (Cons c cs)
  from Cons.prems have "wf_clause c" and "list_all wf_clause cs"
    by simp_all
  from this(1) obtain es where "unfavorable_step c = Inr es"
    using unfavorable_step_wf by blast
  moreover from Cons.IH [OF \<open>list_all wf_clause cs\<close>] obtain out where "unfavorable_loop [] cs = Inr out"
    by blast
  ultimately show ?case
    using unfavorable_loop_acc [of es cs] by simp
qed

lemma unfavorable_loop_append:
  assumes "unfavorable_loop [] xs = Inr o1" and "unfavorable_loop [] ys = Inr o2"
  shows "unfavorable_loop [] (xs @ ys) = Inr (o1 @ o2)"
  using assms
proof (induction xs arbitrary: o1)
  case Nil
  then show ?case by simp
next
  case (Cons c cs)
  show ?case
  proof (cases "unfavorable_step c")
    case (Inl e)
    with Cons.prems show ?thesis by simp
  next
    case (Inr es)
    with Cons.prems(1) have "ebind (unfavorable_loop [] cs) (\<lambda>fs. Inr (es @ fs)) = Inr o1"
      using unfavorable_loop_acc [of es cs] by simp
    then obtain fs where fs: "unfavorable_loop [] cs = Inr fs" "o1 = es @ fs"
      by (cases "unfavorable_loop [] cs") auto
    from Cons.IH [OF fs(1) Cons.prems(2)] have "unfavorable_loop [] (cs @ ys) = Inr (fs @ o2)" .
    then show ?thesis
      using Inr fs(2) unfavorable_loop_acc [of es "cs @ ys"] by simp
  qed
qed

text \<open>
  Claim C8. A clause with at least one HIGH finding and more than two ambiguity findings
  gets exactly one entry, at its place in the processing order; the entry has severity
  HIGH and its reasons are the risk types of the clause's HIGH findings, so the reason
  \<open>Multiple Ambiguous Terms\<close> is there only if a HIGH finding itself is named so.
\<close>

theorem unfavorable_precedence:
  assumes "list_all wf_clause (pre @ c # post)"
    and "\<exists>r \<in> set (get_or (risks c) []). is_high r"
    and "length (get_or (ambiguities c) []) > 2"
  shows "\<exists>o1 e o2.
           identify_unfavorable_clauses (pre @ c # post) = Inr (o1 @ e # o2) \<and>
           identify_unfavorable_clauses pre = Inr o1 \<and>
           identify_unfavorable_clauses post = Inr o2 \<and>
           u_severity e = ''HIGH'' \<and>
           map Some (reasons e) = map risk_type (filter is_high (get_or (risks c) [])) \<and>
           (''Multiple Ambiguous Terms'' \<in> set (reasons e) \<longrightarrow>
              (\<exists>r \<in> set (get_or (risks c) []). is_high r \<and> risk_type r = Some ''Multiple Ambiguous Terms''))"
proof -
  from assms(1) have wf: "list_all wf_clause pre" "wf_clause c" "list_all wf_clause post"
    by simp_all
  from assms(2) have "filter is_high (get_or (risks c) []) \<noteq> []"
    by (simp add: filter_empty_conv)
  with wf(2) obtain e where e: "unfavorable_step c = Inr [e]" "u_severity e = ''HIGH''"
      "map Some (reasons e) = map risk_type (filter is_high (get_or (risks c) []))"
    using unfavorable_step_high by blast
  from wf obtain o1 o2 where o: "unfavorable_loop [] pre = Inr o1" "unfavorable_loop [] post = Inr o2"
    using unfavorable_loop_wf by blast
  have "unfavorable_loop [] (c # post) = Inr (e # o2)"
    using e(1) o(2) unfavorable_loop_acc [of "[e]" post] by simp
  with o(1) have whole: "unfavorable_loop [] (pre @ c # post) = Inr (o1 @ e # o2)"
    by (rule unfavorable_loop_append)
  have "\<exists>r \<in> set (get_or (risks c) []). is_high r \<and> risk_type r = Some ''Multiple Ambiguous Terms''"
    if "''Multiple Ambiguous Terms'' \<in> set (reasons e)"
  proof -
    from that have "Some ''Multiple Ambiguous Terms'' \<in> set (map Some (reasons e))"
      by simp
    with e(3) have "Some ''Multiple Ambiguous Terms'' \<in> risk_type ` set (filter is_high (get_or (risks c) []))"
      by simp
    then show ?thesis by auto
  qed
  with whole o e(2,3) show ?thesis
    by (auto simp: identify_unfavorable_clauses_def)
qed

theorem unfavorable_precedence_witness:
  "list_all wf_clause ([short_clause] @ sample_clause # []) \<and>
   (\<exists>r \<in> set (get_or (risks sample_clause) []). is_high r) \<and>
   length (get_or (ambiguities sample_clause) []) > 2 \<and>
   (\<exists>o1 e o2.
      identify_unfavorable_clauses ([short_clause] @ sample_clause # []) = Inr (o1 @ e # o2) \<and>
      identify_unfavorable_clauses [short_clause] = Inr o1 \<and>
      identify_unfavorable_clauses [] = Inr o2 \<and>
      u_severity e = ''HIGH'' \<and>
      map Some (reasons e) = map risk_type (filter is_high (get_or (risks sample_clause) [])) \<and>
      (''Multiple Ambiguous Terms'' \<in> set (reasons e) \<longrightarrow>
         (\<exists>r \<in> set (get_or (risks sample_clause) []).
            is_high r \<and> risk_type r = Some ''Multiple Ambiguous Terms'')))"
proof -
  have h1: "list_all wf_clause ([short_clause] @ sample_clause # [])"
    by (simp add: wf_clause_def wf_risk_def sample_clause_def short_clause_def)
  have h2: "\<exists>r \<in> set (get_or (risks sample_clause) []). is_high r"
    by (simp add: is_high_def sample_clause_def)
  have h3: "length (get_or (ambiguities sample_clause) []) > 2"
    by (simp add: sample_clause_def)
  from unfavorable_precedence [OF h1 h2 h3] h1 h2 h3 show ?thesis
    by blast
qed

text \<open>
  Claim C9. The preview is the first 200 characters of the original text followed by an
  ellipsis in every case: the entry of a clause whose text has 52 characters ends in
  \<open>...\<close> too, although nothing was cut off.
\<close>

theorem preview_ellipsis_on_short_text:
  "length (get_or (original_text short_clause) '''') = 52 \<and>
   identify_unfavorable_clauses [short_clause] =
     Inr [\<lparr>u_clause_id = ''7.'', u_clause_type = ''Indemnity'',
           reasons = [''Broad Indemnity''],
           u_text = ''Vendor shall indemnify and hold harmless the Client....'',
           u_severity = ''HIGH''\<rparr>]"
  by (simp add: identify_unfavorable_clauses_def unfavorable_step_def short_clause_def)

section \<open>Properties of the construction\<close>

text \<open>
  Claim C4. Constructing a \<open>ClauseAnalyzer\<close> raises \<open>TypeError\<close> for every argument list,
  the default \<open>nlp=None\<close> included and whatever the body of \<open>NLPProcessor.__init__\<close>
  would do, because the constructor passes one argument to \<open>NLPProcessor\<close>, which takes
  none. So no instance exists on which a method could be called: any computation that
  first constructs the analyser and then calls a method on it ends in the \<open>TypeError\<close>.
\<close>

theorem ClauseAnalyzer_raises_TypeError:
  "ClauseAnalyzer body args kwargs = Inl TypeError \<and>
   ClauseAnalyzer body [] [] = Inl TypeError \<and>
   (\<nexists>self. ClauseAnalyzer body args kwargs = Inr self) \<and>
   ebind (ClauseAnalyzer body args kwargs) method = Inl TypeError"
proof -
  have "NLPProcessor body [v] [] = Inl TypeError" for v
    by (simp add: NLPProcessor_def)
  then have "ClauseAnalyzer body as ks = Inl TypeError" for as ks
    by (simp add: ClauseAnalyzer_def Let_def)
  then show ?thesis
    by simp
qed

theorem ClauseAnalyzer_raises_TypeError_witness:
  "ClauseAnalyzer (Inr \<lparr>nlp = PyObject 0, stop_words = [''the'']\<rparr>) [PyObject 0] [] = Inl TypeError \<and>
   ebind (ClauseAnalyzer (Inr \<lparr>nlp = PyObject 0, stop_words = [''the'']\<rparr>) [] [(''nlp'', PyNone)])
     (\<lambda>self. identify_unfavorable_clauses [sample_clause]) = Inl TypeError"
  using ClauseAnalyzer_raises_TypeError [of "Inr \<lparr>nlp = PyObject 0, stop_words = [''the'']\<rparr>" "[PyObject 0]" "[]"]
    ClauseAnalyzer_raises_TypeError [of "Inr \<lparr>nlp = PyObject 0, stop_words = [''the'']\<rparr>" "[]" "[(''nlp'', PyNone)]"
      "\<lambda>self. identify_unfavorable_clauses [sample_clause]"]
  by blast

section \<open>Properties of the classifier\<close>

lemma startswith_iff: "startswith s k \<longleftrightarrow> (\<exists>v. s = k @ v)"
  by (induction s k rule: startswith.induct) auto

lemma py_in_iff: "py_in k s \<longleftrightarrow> (\<exists>u v. s = u @ k @ v)"
proof (induction s)
  case Nil
  show ?case by auto
next
  case (Cons c cs)
  show ?case
  proof
    assume "py_in k (c # cs)"
    then consider "startswith (c # cs) k" | "py_in k cs" by auto
    then show "\<exists>u v. c # cs = u @ k @ v"
    proof cases
      case 1
      then obtain v where "c # cs = k @ v" by (auto simp: startswith_iff)
      then have "c # cs = [] @ k @ v" by simp
      then show ?thesis by blast
    next
      case 2
      with Cons.IH obtain u v where "cs = u @ k @ v" by blast
      then have "c # cs = (c # u) @ k @ v" by simp
      then show ?thesis by blast
    qed
  next
    assume "\<exists>u v. c # cs = u @ k @ v"
    then obtain u v where uv: "c # cs = u @ k @ v" by blast
    show "py_in k (c # cs)"
    proof (cases u)
      case Nil
      with uv have "startswith (c # cs) k" by (auto simp: startswith_iff)
      then show ?thesis by simp
    next
      case (Cons a u')
      with uv have "cs = u' @ k @ v" by simp
      with Cons.IH have "py_in k cs" by blast
      then show ?thesis by simp
    qed
  qed
qed

lemma keyword_score_length: "keyword_score kws s = length (filter (\<lambda>k. py_in k s) kws)"
  by (simp add: keyword_score_def sum_list_triv)

lemma dict_set_fresh: "k \<notin> fst ` set d \<Longrightarrow> dict_set d k v = d @ [(k, v)]"
  by (induction d) auto

lemma type_scores_loop_distinct:
  "distinct (map fst items) \<Longrightarrow> fst ` set acc \<inter> fst ` set items = {} \<Longrightarrow>
   type_scores_loop acc items s = acc @ scored s items"
proof (induction items arbitrary: acc)
  case Nil
  show ?case by (simp add: scored_def)
next
  case (Cons item items)
  let ?n = "keyword_score (snd item) s"
  from Cons.prems have fresh: "fst item \<notin> fst ` set acc" by auto
  from Cons.prems have d: "distinct (map fst items)" by simp
  show ?case
  proof (cases "?n > 0")
    case True
    from Cons.prems have "fst ` set (acc @ [(fst item, ?n)]) \<inter> fst ` set items = {}"
      by auto
    with d have "type_scores_loop (acc @ [(fst item, ?n)]) items s = (acc @ [(fst item, ?n)]) @ scored s items"
      by (rule Cons.IH)
    with True show ?thesis
      by (simp add: scored_def dict_set_fresh [OF fresh])
  next
    case False
    from Cons.prems have "fst ` set acc \<inter> fst ` set items = {}"
      by auto
    with d have "type_scores_loop acc items s = acc @ scored s items"
      by (rule Cons.IH)
    with False show ?thesis
      by (simp add: scored_def)
  qed
qed

lemma max_loop_first:
  "\<exists>pre post. b # xs = pre @ max_loop key b xs # post \<and>
      (\<forall>y \<in> set pre. key y < key (max_loop key b xs)) \<and>
      (\<forall>y \<in> set post. key y \<le> key (max_loop key b xs))"
proof (induction xs arbitrary: b)
  case Nil
  have "[b] = [] @ max_loop key b [] # [] \<and>
      (\<forall>y \<in> set []. key y < key (max_loop key b [])) \<and>
      (\<forall>y \<in> set []. key y \<le> key (max_loop key b []))"
    by simp
  then show ?case by blast
next
  case (Cons x xs)
  show ?case
  proof (cases "key x > key b")
    case True
    define r where "r = max_loop key x xs"
    have res: "max_loop key b (x # xs) = r"
      using True by (simp add: r_def)
    from Cons.IH [of x] obtain pre post where s: "x # xs = pre @ r # post"
        "\<forall>y \<in> set pre. key y < key r" "\<forall>y \<in> set post. key y \<le> key r"
      unfolding r_def by blast
    have "x \<in> set (x # xs)" by simp
    then have "x \<in> set (pre @ r # post)" by (simp only: s(1))
    with s(2,3) have "key x \<le> key r" by (auto simp: less_imp_le)
    with True have "key b < key r" by simp
    with s have "b # x # xs = (b # pre) @ r # post \<and>
        (\<forall>y \<in> set (b # pre). key y < key r) \<and> (\<forall>y \<in> set post. key y \<le> key r)"
      by simp
    then show ?thesis unfolding res by blast
  next
    case False
    define r where "r = max_loop key b xs"
    have res: "max_loop key b (x # xs) = r"
      using False by (simp add: r_def)
    from Cons.IH [of b] obtain pre post where s: "b # xs = pre @ r # post"
        "\<forall>y \<in> set pre. key y < key r" "\<forall>y \<in> set post. key y \<le> key r"
      unfolding r_def by blast
    show ?thesis
    proof (cases pre)
      case Nil
      with s(1) have br: "b = r" and xs: "xs = post" by simp_all
      from False br have "key x \<le> key r" by simp
      with s(3) br xs have "b # x # xs = [] @ r # (x # post) \<and>
          (\<forall>y \<in> set []. key y < key r) \<and>
          (\<forall>y \<in> set (x # post). key y \<le> key r)"
        by simp
      then show ?thesis unfolding res by blast
    next
      case (Cons p pre')
      with s(1) have p: "p = b" and xs: "xs = pre' @ r # post" by simp_all
      from s(2) Cons p have "key b < key r" by simp
      with False have "key x < key r" by simp
      with s(2,3) Cons p xs have "b # x # xs = (b # x # pre') @ r # post \<and>
          (\<forall>y \<in> set (b # x # pre'). key y < key r) \<and> (\<forall>y \<in> set post. key y \<le> key r)"
        by simp
      then show ?thesis unfolding res by blast
    qed
  qed
qed

lemma filter_eq_split:
  "filter P ys = pre' @ r # post' \<Longrightarrow>
   \<exists>pre post. ys = pre @ r # post \<and> pre' = filter P pre \<and> post' = filter P post \<and> P r"
proof (induction pre' arbitrary: ys)
  case Nil
  then have "filter P ys = r # post'" by simp
  from filter_eq_ConsD [OF this] obtain us vs where
    uv: "ys = us @ r # vs" "\<forall>u \<in> set us. \<not> P u" "P r" "post' = filter P vs"
    by blast
  from uv(2) have "filter P us = []" by (simp add: filter_empty_conv)
  with uv have "ys = us @ r # vs \<and> [] = filter P us \<and> post' = filter P vs \<and> P r"
    by simp
  then show ?case by blast
next
  case (Cons a pre')
  then have "filter P ys = a # (pre' @ r # post')" by simp
  from filter_eq_ConsD [OF this] obtain us vs where
    uv: "ys = us @ a # vs" "\<forall>u \<in> set us. \<not> P u" "P a" "pre' @ r # post' = filter P vs"
    by blast
  from uv(4) have "filter P vs = pre' @ r # post'" by simp
  from Cons.IH [OF this] obtain pre post where
    pp: "vs = pre @ r # post" "pre' = filter P pre" "post' = filter P post" "P r"
    by blast
  from uv(2) have "filter P us = []" by (simp add: filter_empty_conv)
  with uv(1,3) pp have "ys = (us @ a # pre) @ r # post \<and> a # pre' = filter P (us @ a # pre) \<and>
      post' = filter P post \<and> P r"
    by simp
  then show ?case by blast
qed

lemma map_eq_split:
  assumes "map f xs = us @ r # zs"
  shows "\<exists>pre item post. xs = pre @ item # post \<and> map f pre = us \<and> f item = r \<and> map f post = zs"
proof -
  from assms have "\<exists>pre rest. xs = pre @ rest \<and> us = map f pre \<and> r # zs = map f rest"
    by (rule iffD1 [OF map_eq_append_conv])
  then obtain pre rest where a: "xs = pre @ rest" "us = map f pre" "r # zs = map f rest"
    by (elim exE conjE)
  from a(3) have "\<exists>item post. rest = item # post \<and> r = f item \<and> zs = map f post"
    by (rule iffD1 [OF Cons_eq_map_conv])
  then obtain item post where b: "rest = item # post" "r = f item" "zs = map f post"
    by (elim exE conjE)
  have "xs = pre @ item # post \<and> map f pre = us \<and> f item = r \<and> map f post = zs"
    unfolding a(1) a(2) b by (intro conjI refl)
  then show ?thesis
    by (intro exI)
qed

text \<open>The first maximum of the positive entries is the first maximum of all entries.\<close>

lemma classify_general:
  assumes "distinct (map fst (clause_keywords self))"
  shows "if \<forall>item \<in> set (clause_keywords self). keyword_score (snd item) (lower txt) = 0
         then classify_clause_type self txt = ''General Provisions''
         else \<exists>pre item post.
                clause_keywords self = pre @ item # post \<and>
                classify_clause_type self txt = fst item \<and>
                0 < keyword_score (snd item) (lower txt) \<and>
                (\<forall>p \<in> set pre. keyword_score (snd p) (lower txt) < keyword_score (snd item) (lower txt)) \<and>
                (\<forall>p \<in> set post. keyword_score (snd p) (lower txt) \<le> keyword_score (snd item) (lower txt))"
proof -
  define s where "s = lower txt"
  define f where "f = (\<lambda>item :: string \<times> string list. (fst item, keyword_score (snd item) s))"
  define tbl where "tbl = clause_keywords self"
  have ts: "type_scores_loop [] tbl s = filter (\<lambda>p. snd p > 0) (map f tbl)"
    using type_scores_loop_distinct [of tbl "[]" s] assms
    by (simp add: scored_def f_def tbl_def)
  show ?thesis
  proof (cases "\<forall>item \<in> set tbl. keyword_score (snd item) s = 0")
    case True
    then have "filter (\<lambda>p. snd p > 0) (map f tbl) = []"
      by (auto simp: filter_empty_conv f_def)
    with ts have general: "classify_clause_type self txt = ''General Provisions''"
      by (simp add: classify_clause_type_def s_def tbl_def)
    from True have zero: "\<forall>item \<in> set (clause_keywords self). keyword_score (snd item) (lower txt) = 0"
      by (simp add: tbl_def s_def)
    show ?thesis
      by (subst if_P [OF zero]) (rule general)
  next
    case False
    then obtain x xs where nonempty: "filter (\<lambda>p. snd p > 0) (map f tbl) = x # xs"
      by (cases "filter (\<lambda>p. snd p > 0) (map f tbl)") (auto simp: filter_empty_conv f_def)
    define r where "r = max_loop snd x xs"
    have cl: "classify_clause_type self txt = fst r"
      using ts nonempty by (simp add: classify_clause_type_def s_def tbl_def r_def)
    from max_loop_first [of x xs snd] obtain pre' post' where
      sp: "x # xs = pre' @ r # post'" "\<forall>y \<in> set pre'. snd y < snd r" "\<forall>y \<in> set post'. snd y \<le> snd r"
      unfolding r_def by blast
    from nonempty sp(1) have "filter (\<lambda>p. snd p > 0) (map f tbl) = pre' @ r # post'"
      by simp
    then obtain us zs where uz: "map f tbl = us @ r # zs" "pre' = filter (\<lambda>p. snd p > 0) us"
        "post' = filter (\<lambda>p. snd p > 0) zs" "snd r > 0"
      using filter_eq_split [of "\<lambda>p. snd p > 0" "map f tbl" pre' r post'] by blast
    from uz(1) have "\<exists>pre item post. tbl = pre @ item # post \<and> map f pre = us \<and> f item = r \<and> map f post = zs"
      by (rule map_eq_split)
    then obtain pre item post where t: "tbl = pre @ item # post" "map f pre = us"
        "f item = r" "map f post = zs"
      by blast
    have rs: "snd r = keyword_score (snd item) s" "fst r = fst item"
      using t(3) by (auto simp: f_def)
    have before: "keyword_score (snd p) s < keyword_score (snd item) s" if "p \<in> set pre" for p
    proof -
      from that have "f p \<in> set (map f pre)" by simp
      then have "f p \<in> set us" by (simp only: t(2))
      have "snd (f p) < snd r"
      proof (cases "snd (f p) > 0")
        case True
        with \<open>f p \<in> set us\<close> uz(2) have "f p \<in> set pre'" by simp
        with sp(2) show ?thesis by blast
      next
        case False
        with uz(4) show ?thesis by simp
      qed
      then show ?thesis by (simp add: f_def rs)
    qed
    have after: "keyword_score (snd p) s \<le> keyword_score (snd item) s" if "p \<in> set post" for p
    proof -
      from that have "f p \<in> set (map f post)" by simp
      then have "f p \<in> set zs" by (simp only: t(4))
      have "snd (f p) \<le> snd r"
      proof (cases "snd (f p) > 0")
        case True
        with \<open>f p \<in> set zs\<close> uz(3) have "f p \<in> set post'" by simp
        with sp(3) show ?thesis by blast
      next
        case False
        then show ?thesis by simp
      qed
      then show ?thesis by (simp add: f_def rs)
    qed
    have "clause_keywords self = pre @ item # post \<and>
          classify_clause_type self txt = fst item \<and>
          0 < keyword_score (snd item) (lower txt) \<and>
          (\<forall>p \<in> set pre. keyword_score (snd p) (lower txt) < keyword_score (snd item) (lower txt)) \<and>
          (\<forall>p \<in> set post. keyword_score (snd p) (lower txt) \<le> keyword_score (snd item) (lower txt))"
      using t(1) cl rs uz(4) before after by (simp add: tbl_def s_def)
    then have first: "\<exists>pre item post.
          clause_keywords self = pre @ item # post \<and>
          classify_clause_type self txt = fst item \<and>
          0 < keyword_score (snd item) (lower txt) \<and>
          (\<forall>p \<in> set pre. keyword_score (snd p) (lower txt) < keyword_score (snd item) (lower txt)) \<and>
          (\<forall>p \<in> set post. keyword_score (snd p) (lower txt) \<le> keyword_score (snd item) (lower txt))"
      by blast
    from False have pos: "\<not> (\<forall>item \<in> set (clause_keywords self). keyword_score (snd item) (lower txt) = 0)"
      by (simp add: tbl_def s_def)
    show ?thesis
      by (subst if_not_P [OF pos]) (rule first)
  qed
qed

lemma table_distinct: "distinct (map fst clause_keywords_table)"
  by (simp add: clause_keywords_table_def)

text \<open>
  Claim C5. The score of a type is the number of its keywords that occur in the
  lower-cased clause text. The twelve types are declared in the order Payment Terms,
  Termination, Indemnity, Confidentiality, Intellectual Property, Liability, Dispute
  Resolution, Force Majeure, Warranties, Non-compete, Auto-Renewal, Lock-in Period. If
  every score is zero the classifier returns General Provisions; otherwise it returns a
  type with a positive score such that every type declared before it has a strictly
  smaller score and every type declared after it has no larger score: the first-declared
  type among those with the highest score.
\<close>

theorem classify_first_highest:
  assumes "clause_keywords self = clause_keywords_table"
  shows "map fst clause_keywords_table =
           [''Payment Terms'', ''Termination'', ''Indemnity'', ''Confidentiality'',
            ''Intellectual Property'', ''Liability'', ''Dispute Resolution'',
            ''Force Majeure'', ''Warranties'', ''Non-compete'', ''Auto-Renewal'',
            ''Lock-in Period''] \<and>
         (\<forall>keywords. keyword_score keywords (lower clause_text) =
            length (filter (\<lambda>keyword. \<exists>u v. lower clause_text = u @ keyword @ v) keywords)) \<and>
         (if \<forall>item \<in> set clause_keywords_table. keyword_score (snd item) (lower clause_text) = 0
          then classify_clause_type self clause_text = ''General Provisions''
          else \<exists>pre item post.
                 clause_keywords_table = pre @ item # post \<and>
                 classify_clause_type self clause_text = fst item \<and>
                 0 < keyword_score (snd item) (lower clause_text) \<and>
                 (\<forall>p \<in> set pre. keyword_score (snd p) (lower clause_text)
                                  < keyword_score (snd item) (lower clause_text)) \<and>
                 (\<forall>p \<in> set post. keyword_score (snd p) (lower clause_text)
                                   \<le> keyword_score (snd item) (lower clause_text)))"
proof -
  have order: "map fst clause_keywords_table =
           [''Payment Terms'', ''Termination'', ''Indemnity'', ''Confidentiality'',
            ''Intellectual Property'', ''Liability'', ''Dispute Resolution'',
            ''Force Majeure'', ''Warranties'', ''Non-compete'', ''Auto-Renewal'',
            ''Lock-in Period'']"
    by (simp add: clause_keywords_table_def)
  have count: "\<forall>keywords. keyword_score keywords (lower clause_text) =
            length (filter (\<lambda>keyword. \<exists>u v. lower clause_text = u @ keyword @ v) keywords)"
    by (simp add: keyword_score_length py_in_iff)
  from table_distinct assms have "distinct (map fst (clause_keywords self))"
    by simp
  from classify_general [OF this, of clause_text] have
    "if \<forall>item \<in> set clause_keywords_table. keyword_score (snd item) (lower clause_text) = 0
          then classify_clause_type self clause_text = ''General Provisions''
          else \<exists>pre item post.
                 clause_keywords_table = pre @ item # post \<and>
                 classify_clause_type self clause_text = fst item \<and>
                 0 < keyword_score (snd item) (lower clause_text) \<and>
                 (\<forall>p \<in> set pre. keyword_score (snd p) (lower clause_text)
                                  < keyword_score (snd item) (lower clause_text)) \<and>
                 (\<forall>p \<in> set post. keyword_score (snd p) (lower clause_text)
                                   \<le> keyword_score (snd item) (lower clause_text))"
    unfolding assms .
  with order count show ?thesis
    by (intro conjI)
qed

theorem classify_first_highest_witness:
  "clause_keywords sample_analyzer = clause_keywords_table \<and>
   classify_clause_type sample_analyzer ''The fee is due upon cancellation.'' = ''Payment Terms'' \<and>
   keyword_score (snd (clause_keywords_table ! 0)) (lower ''The fee is due upon cancellation.'') = 2 \<and>
   keyword_score (snd (clause_keywords_table ! 1)) (lower ''The fee is due upon cancellation.'') = 2 \<and>
   (\<exists>pre item post.
      clause_keywords_table = pre @ item # post \<and>
      classify_clause_type sample_analyzer ''The fee is due upon cancellation.'' = fst item \<and>
      0 < keyword_score (snd item) (lower ''The fee is due upon cancellation.'') \<and>
      (\<forall>p \<in> set pre. keyword_score (snd p) (lower ''The fee is due upon cancellation.'')
                       < keyword_score (snd item) (lower ''The fee is due upon cancellation.'')) \<and>
      (\<forall>p \<in> set post. keyword_score (snd p) (lower ''The fee is due upon cancellation.'')
                        \<le> keyword_score (snd item) (lower ''The fee is due upon cancellation.'')))"
proof -
  have h: "clause_keywords sample_analyzer = clause_keywords_table"
    by (simp add: sample_analyzer_def)
  have pay: "keyword_score (snd (clause_keywords_table ! 0)) (lower ''The fee is due upon cancellation.'') = 2"
    by code_simp
  have ter: "keyword_score (snd (clause_keywords_table ! 1)) (lower ''The fee is due upon cancellation.'') = 2"
    by code_simp
  have res: "classify_clause_type sample_analyzer ''The fee is due upon cancellation.'' = ''Payment Terms''"
    by code_simp
  have "clause_keywords_table ! 0 \<in> set clause_keywords_table"
    by (simp add: clause_keywords_table_def)
  with pay have nz: "\<not> (\<forall>item \<in> set clause_keywords_table.
      keyword_score (snd item) (lower ''The fee is due upon cancellation.'') = 0)"
    by (metis zero_neq_numeral)
  from classify_first_highest [OF h, of "''The fee is due upon cancellation.''"]
  have "if \<forall>item \<in> set clause_keywords_table.
             keyword_score (snd item) (lower ''The fee is due upon cancellation.'') = 0
        then classify_clause_type sample_analyzer ''The fee is due upon cancellation.'' = ''General Provisions''
        else \<exists>pre item post.
      clause_keywords_table = pre @ item # post \<and>
      classify_clause_type sample_analyzer ''The fee is due upon cancellation.'' = fst item \<and>
      0 < keyword_score (snd item) (lower ''The fee is due upon cancellation.'') \<and>
      (\<forall>p \<in> set pre. keyword_score (snd p) (lower ''The fee is due upon cancellation.'')
                       < keyword_score (snd item) (lower ''The fee is due upon cancellation.'')) \<and>
      (\<forall>p \<in> set post. keyword_score (snd p) (lower ''The fee is due upon cancellation.'')
                        \<le> keyword_score (snd item) (lower ''The fee is due upon cancellation.''))"
    by (elim conjE)
  then have "\<exists>pre item post.
      clause_keywords_table = pre @ item # post \<and>
      classify_clause_type sample_analyzer ''The fee is due upon cancellation.'' = fst item \<and>
      0 < keyword_score (snd item) (lower ''The fee is due upon cancellation.'') \<and>
      (\<forall>p \<in> set pre. keyword_score (snd p) (lower ''The fee is due upon cancellation.'')
                       < keyword_score (snd item) (lower ''The fee is due upon cancellation.'')) \<and>
      (\<forall>p \<in> set post. keyword_score (snd p) (lower ''The fee is due upon cancellation.'')
                        \<le> keyword_score (snd item) (lower ''The fee is due upon cancellation.''))"
    by (subst (asm) if_not_P [OF nz])
  with h pay ter res show ?thesis
    by (intro conjI)
qed

section \<open>Properties of the risk assessor\<close>

lemma dict_append_keys:
  "dict_append d k e = Inr d' \<Longrightarrow> map fst d' = map fst d"
proof (induction d arbitrary: d')
  case Nil
  then show ?case by simp
next
  case (Cons kv d)
  show ?case
  proof (cases "fst kv = k")
    case True
    with Cons.prems show ?thesis by auto
  next
    case False
    with Cons.prems obtain d0 where d0: "dict_append d k e = Inr d0" "d' = kv # d0"
      by (cases "dict_append d k e") auto
    from Cons.IH [OF d0(1)] d0(2) show ?thesis by simp
  qed
qed

lemma dict_append_present:
  "k \<in> set (map fst d) \<Longrightarrow> \<exists>d'. dict_append d k e = Inr d'"
proof (induction d)
  case Nil
  then show ?case by simp
next
  case (Cons kv d)
  show ?case
  proof (cases "fst kv = k")
    case True
    then show ?thesis by simp
  next
    case False
    with Cons.prems have "k \<in> set (map fst d)" by auto
    from Cons.IH [OF this] obtain d0 where "dict_append d k e = Inr d0" by blast
    with False show ?thesis by simp
  qed
qed

lemma dict_append_absent:
  "k \<notin> set (map fst d) \<Longrightarrow> dict_append d k e = Inl KeyError"
  by (induction d) auto

lemma dict_append_entry:
  "dict_append d k e = Inr d' \<Longrightarrow> e \<in> set (get_or (map_of d' k) [])"
proof (induction d arbitrary: d')
  case Nil
  then show ?case by simp
next
  case (Cons kv d)
  show ?case
  proof (cases "fst kv = k")
    case True
    with Cons.prems show ?thesis by auto
  next
    case False
    with Cons.prems obtain d0 where d0: "dict_append d k e = Inr d0" "d' = kv # d0"
      by (cases "dict_append d k e") auto
    from Cons.IH [OF d0(1)] d0(2) False show ?thesis
      by (cases kv) simp
  qed
qed

lemma dict_append_keeps:
  "dict_append d k e = Inr d' \<Longrightarrow> x \<in> set (get_or (map_of d k') []) \<Longrightarrow>
   x \<in> set (get_or (map_of d' k') [])"
proof (induction d arbitrary: d')
  case Nil
  then show ?case by simp
next
  case (Cons kv d)
  show ?case
  proof (cases "fst kv = k")
    case True
    with Cons.prems show ?thesis by (cases kv) (auto split: if_splits)
  next
    case False
    with Cons.prems(1) obtain d0 where d0: "dict_append d k e = Inr d0" "d' = kv # d0"
      by (cases "dict_append d k e") auto
    show ?thesis
    proof (cases "fst kv = k'")
      case True
      with Cons.prems(2) d0(2) show ?thesis by (cases kv) simp
    next
      case False
      with Cons.prems(2) have "x \<in> set (get_or (map_of d k') [])" by (cases kv) simp
      from Cons.IH [OF d0(1) this] d0(2) False show ?thesis by (cases kv) simp
    qed
  qed
qed

lemma risk_step_valid:
  assumes "valid_risk r" and "map fst (snd st) = map fst initial_breakdown"
  shows "\<exists>bd. risk_step fl cl st r = Inr (fl (fst st + risk_score_of fl r), bd) \<and>
           map fst bd = map fst initial_breakdown"
proof -
  from assms(1) obtain sc where sc: "RISK_LEVELS_score (get_or (severity r) ''MEDIUM'') = Some sc"
    by (auto simp: valid_risk_def)
  from assms have "get_or (category r) ''other'' \<in> set (map fst (snd st))"
    by (simp add: valid_risk_def)
  from dict_append_present [OF this] obtain bd where
    bd: "dict_append (snd st) (get_or (category r) ''other'')
           \<lparr>b_clause_id = get_or (clause_id cl) ''Unknown'',
            b_risk_type = get_or (risk_type r) ''Unknown Risk'',
            b_severity = get_or (severity r) ''MEDIUM'',
            score = fl (of_int sc * weight_of fl (get_or (category r) ''other'')),
            b_description = get_or (description r) ''''\<rparr> = Inr bd"
    by blast
  from dict_append_keys [OF bd] assms(2) have "map fst bd = map fst initial_breakdown"
    by simp
  moreover have "risk_step fl cl st r = Inr (fl (fst st + risk_score_of fl r), bd)"
    using sc bd by (simp add: risk_step_def risk_score_of_def Let_def)
  ultimately show ?thesis by blast
qed

lemma risk_step_invalid:
  assumes "\<not> valid_risk r" and "map fst (snd st) = map fst initial_breakdown"
  shows "risk_step fl cl st r = Inl KeyError"
proof (cases "RISK_LEVELS_score (get_or (severity r) ''MEDIUM'')")
  case None
  then show ?thesis by (simp add: risk_step_def Let_def)
next
  case (Some sc)
  with assms have "get_or (category r) ''other'' \<notin> set (map fst (snd st))"
    by (simp add: valid_risk_def)
  from dict_append_absent [OF this] Some show ?thesis
    by (simp add: risk_step_def Let_def)
qed

lemma risks_loop_valid:
  assumes "list_all valid_risk rs" and "map fst (snd st) = map fst initial_breakdown"
  shows "\<exists>bd. risks_loop fl cl st rs =
            Inr (foldl (\<lambda>t r. fl (t + risk_score_of fl r)) (fst st) rs, bd) \<and>
           map fst bd = map fst initial_breakdown"
  using assms
proof (induction rs arbitrary: st)
  case Nil
  then show ?case by (cases st) simp
next
  case (Cons r rs)
  from Cons.prems have v: "valid_risk r" and vs: "list_all valid_risk rs" by simp_all
  from risk_step_valid [OF v Cons.prems(2), of fl cl] obtain bd where
    bd: "risk_step fl cl st r = Inr (fl (fst st + risk_score_of fl r), bd)"
        "map fst bd = map fst initial_breakdown"
    by blast
  from Cons.IH [OF vs, of "(fl (fst st + risk_score_of fl r), bd)"] bd(2)
  obtain bd' where "risks_loop fl cl (fl (fst st + risk_score_of fl r), bd) rs =
      Inr (foldl (\<lambda>t r. fl (t + risk_score_of fl r)) (fl (fst st + risk_score_of fl r)) rs, bd')"
      "map fst bd' = map fst initial_breakdown"
    by auto
  with bd(1) show ?case by simp
qed

lemma risks_loop_invalid:
  assumes "\<not> list_all valid_risk rs" and "map fst (snd st) = map fst initial_breakdown"
  shows "risks_loop fl cl st rs = Inl KeyError"
  using assms
proof (induction rs arbitrary: st)
  case Nil
  then show ?case by simp
next
  case (Cons r rs)
  show ?case
  proof (cases "valid_risk r")
    case False
    from risk_step_invalid [OF this Cons.prems(2)] show ?thesis by simp
  next
    case True
    from risk_step_valid [OF True Cons.prems(2), of fl cl] obtain bd where
      bd: "risk_step fl cl st r = Inr (fl (fst st + risk_score_of fl r), bd)"
          "map fst bd = map fst initial_breakdown"
      by blast
    from Cons.prems(1) True have "\<not> list_all valid_risk rs" by simp
    from Cons.IH [OF this, of "(fl (fst st + risk_score_of fl r), bd)"] bd(2)
    have "risks_loop fl cl (fl (fst st + risk_score_of fl r), bd) rs = Inl KeyError"
      by simp
    with bd(1) show ?thesis by simp
  qed
qed

lemma clauses_loop_valid:
  assumes "list_all valid_risk (all_risks cls)" and "map fst (snd st) = map fst initial_breakdown"
  shows "\<exists>bd. clauses_loop fl st cls =
            Inr (foldl (\<lambda>t r. fl (t + risk_score_of fl r)) (fst st) (all_risks cls), bd) \<and>
           map fst bd = map fst initial_breakdown"
  using assms
proof (induction cls arbitrary: st)
  case Nil
  then show ?case by (cases st) (simp add: all_risks_def)
next
  case (Cons cl cls)
  let ?g = "\<lambda>t r. fl (t + risk_score_of fl r)"
  let ?rs = "get_or (risks cl) []"
  from Cons.prems(1) have v: "list_all valid_risk ?rs" and vs: "list_all valid_risk (all_risks cls)"
    by (simp_all add: all_risks_def)
  from risks_loop_valid [OF v Cons.prems(2), of fl cl] obtain bd where
    bd: "risks_loop fl cl st ?rs = Inr (foldl ?g (fst st) ?rs, bd)"
        "map fst bd = map fst initial_breakdown"
    by blast
  from Cons.IH [OF vs, of "(foldl ?g (fst st) ?rs, bd)"] bd(2)
  obtain bd' where "clauses_loop fl (foldl ?g (fst st) ?rs, bd) cls =
      Inr (foldl ?g (foldl ?g (fst st) ?rs) (all_risks cls), bd')"
      "map fst bd' = map fst initial_breakdown"
    by auto
  with bd(1) show ?case by (simp add: all_risks_def)
qed

lemma clauses_loop_invalid:
  assumes "\<not> list_all valid_risk (all_risks cls)" and "map fst (snd st) = map fst initial_breakdown"
  shows "clauses_loop fl st cls = Inl KeyError"
  using assms
proof (induction cls arbitrary: st)
  case Nil
  then show ?case by (simp add: all_risks_def)
next
  case (Cons cl cls)
  let ?g = "\<lambda>t r. fl (t + risk_score_of fl r)"
  let ?rs = "get_or (risks cl) []"
  show ?case
  proof (cases "list_all valid_risk ?rs")
    case False
    from risks_loop_invalid [OF this Cons.prems(2)] show ?thesis by simp
  next
    case True
    from risks_loop_valid [OF True Cons.prems(2), of fl cl] obtain bd where
      bd: "risks_loop fl cl st ?rs = Inr (foldl ?g (fst st) ?rs, bd)"
          "map fst bd = map fst initial_breakdown"
      by blast
    from Cons.prems(1) True have "\<not> list_all valid_risk (all_risks cls)"
      by (simp add: all_risks_def)
    from Cons.IH [OF this, of "(foldl ?g (fst st) ?rs, bd)"] bd(2)
    have "clauses_loop fl (foldl ?g (fst st) ?rs, bd) cls = Inl KeyError"
      by simp
    with bd(1) show ?thesis by simp
  qed
qed

lemma categorize_in_keys: "categorize_llm_risk t \<in> set (map fst initial_breakdown)"
  by (simp add: categorize_llm_risk_def initial_breakdown_def RISK_CATEGORIES_def Let_def)

lemma llm_step_ok:
  assumes "map fst (snd st) = map fst initial_breakdown"
  shows "\<exists>bd. llm_step fl st r = Inr (fl (fst st + llm_score_of fl r), bd) \<and>
           map fst bd = map fst initial_breakdown \<and>
           llm_entry fl r \<in> set (get_or (map_of bd (llm_category r)) []) \<and>
           (\<forall>k x. x \<in> set (get_or (map_of (snd st) k) []) \<longrightarrow> x \<in> set (get_or (map_of bd k) []))"
proof -
  from assms have "llm_category r \<in> set (map fst (snd st))"
    by (simp only: llm_category_def categorize_in_keys)
  from dict_append_present [OF this] obtain bd where
    bd: "dict_append (snd st) (llm_category r) (llm_entry fl r) = Inr bd"
    by blast
  from dict_append_keys [OF bd] assms have "map fst bd = map fst initial_breakdown"
    by simp
  moreover have "llm_step fl st r = Inr (fl (fst st + llm_score_of fl r), bd)"
    using bd by (simp add: llm_step_def llm_score_of_def llm_entry_def llm_category_def Let_def)
  moreover note dict_append_entry [OF bd] dict_append_keeps [OF bd]
  ultimately show ?thesis by blast
qed

lemma llm_loop_ok:
  assumes "map fst (snd st) = map fst initial_breakdown"
  shows "\<exists>bd. llm_loop fl st rs =
            Inr (foldl (\<lambda>t r. fl (t + llm_score_of fl r)) (fst st) rs, bd) \<and>
           map fst bd = map fst initial_breakdown \<and>
           (\<forall>r \<in> set rs. llm_entry fl r \<in> set (get_or (map_of bd (llm_category r)) [])) \<and>
           (\<forall>k x. x \<in> set (get_or (map_of (snd st) k) []) \<longrightarrow> x \<in> set (get_or (map_of bd k) []))"
  using assms
proof (induction rs arbitrary: st)
  case Nil
  then show ?case by (cases st) simp
next
  case (Cons r rs)
  let ?g = "\<lambda>t r. fl (t + llm_score_of fl r)"
  from llm_step_ok [OF Cons.prems, of fl r] obtain bd where
    bd: "llm_step fl st r = Inr (?g (fst st) r, bd)"
        "map fst bd = map fst initial_breakdown"
        "llm_entry fl r \<in> set (get_or (map_of bd (llm_category r)) [])"
        "\<And>k x. x \<in> set (get_or (map_of (snd st) k) []) \<Longrightarrow> x \<in> set (get_or (map_of bd k) [])"
    by blast
  from Cons.IH [of "(?g (fst st) r, bd)"] bd(2) obtain bd' where
    bd': "llm_loop fl (?g (fst st) r, bd) rs = Inr (foldl ?g (?g (fst st) r) rs, bd')"
         "map fst bd' = map fst initial_breakdown"
         "\<And>x. x \<in> set rs \<Longrightarrow> llm_entry fl x \<in> set (get_or (map_of bd' (llm_category x)) [])"
         "\<And>k x. x \<in> set (get_or (map_of bd k) []) \<Longrightarrow> x \<in> set (get_or (map_of bd' k) [])"
    by auto
  have "llm_loop fl st (r # rs) = Inr (foldl ?g (fst st) (r # rs), bd')"
    using bd(1) bd'(1) by simp
  moreover have "\<forall>x \<in> set (r # rs). llm_entry fl x \<in> set (get_or (map_of bd' (llm_category x)) [])"
    using bd(3) bd'(3,4) by auto
  moreover have "\<forall>k x. x \<in> set (get_or (map_of (snd st) k) []) \<longrightarrow> x \<in> set (get_or (map_of bd' k) [])"
    using bd(4) bd'(4) by blast
  ultimately show ?case using bd'(2) by blast
qed

lemma initial_keys: "map fst (snd (0 :: real, initial_breakdown)) = map fst initial_breakdown"
  by simp

lemma assess_invalid:
  assumes "\<not> list_all valid_risk (all_risks cls)"
  shows "assess_contract_risk fl cls llm = Inl KeyError"
  using clauses_loop_invalid [OF assms initial_keys, of fl]
  by (simp add: assess_contract_risk_def)

lemma assess_valid:
  assumes "list_all valid_risk (all_risks cls)"
  shows "\<exists>r. assess_contract_risk fl cls llm = Inr r \<and>
           overall_score r = score_of_total fl (length cls)
             (foldl (\<lambda>t r. fl (t + llm_score_of fl r))
                (foldl (\<lambda>t r. fl (t + risk_score_of fl r)) 0 (all_risks cls)) (get_or llm [])) \<and>
           (\<forall>x \<in> set (get_or llm []).
              llm_entry fl x \<in> set (get_or (map_of (risk_breakdown r) (llm_category x)) []))"
proof -
  let ?t = "foldl (\<lambda>t r. fl (t + risk_score_of fl r)) 0 (all_risks cls)"
  let ?gl = "\<lambda>t r. fl (t + llm_score_of fl r)"
  from clauses_loop_valid [OF assms initial_keys, of fl] obtain bd where
    bd: "clauses_loop fl (0, initial_breakdown) cls = Inr (?t, bd)"
        "map fst bd = map fst initial_breakdown"
    by auto
  from llm_loop_ok [of "(?t, bd)" fl "get_or llm []"] bd(2) obtain bd' where
    bd': "llm_loop fl (?t, bd) (get_or llm []) = Inr (foldl ?gl ?t (get_or llm []), bd')"
         "\<forall>x \<in> set (get_or llm []). llm_entry fl x \<in> set (get_or (map_of bd' (llm_category x)) [])"
    by auto
  show ?thesis
    using bd(1) bd'
    by (simp add: assess_contract_risk_def score_of_total_def Let_def)
qed

lemma fl_mono: "rounding fl \<Longrightarrow> x \<le> y \<Longrightarrow> fl x \<le> fl y"
  by (simp add: rounding_def mono_def)

lemma fl_nonneg: "rounding fl \<Longrightarrow> 0 \<le> x \<Longrightarrow> 0 \<le> fl x"
  using fl_mono [of fl 0 x] by (simp add: rounding_def)

lemma fold_mono_init:
  assumes "rounding fl"
  shows "t \<le> t' \<Longrightarrow> foldl (\<lambda>t r. fl (t + f r)) t rs \<le> foldl (\<lambda>t r. fl (t + f r)) t' rs"
proof (induction rs arbitrary: t t')
  case Nil
  then show ?case by simp
next
  case (Cons r rs)
  from Cons.prems have "fl (t + f r) \<le> fl (t' + f r)"
    by (intro fl_mono [OF assms]) simp
  from Cons.IH [OF this] show ?case by simp
qed

lemma fold_fixed:
  assumes "rounding fl" and "fl t = t"
  shows "fl (foldl (\<lambda>t r. fl (t + f r)) t rs) = foldl (\<lambda>t r. fl (t + f r)) t rs"
proof (induction rs rule: rev_induct)
  case Nil
  from assms(2) show ?case by simp
next
  case (snoc r rs)
  from assms(1) show ?case by (simp add: rounding_def)
qed

lemma fold_insert:
  assumes "rounding fl" and "fl t = t" and "0 \<le> f x"
  shows "foldl (\<lambda>t r. fl (t + f r)) t (xs @ ys) \<le> foldl (\<lambda>t r. fl (t + f r)) t (xs @ x # ys)"
proof -
  let ?g = "\<lambda>t r. fl (t + f r)"
  define a where "a = foldl ?g t xs"
  have "fl a = a"
    unfolding a_def by (rule fold_fixed [OF assms(1,2)])
  moreover from assms(3) have "fl a \<le> fl (a + f x)"
    by (intro fl_mono [OF assms(1)]) simp
  ultimately have "a \<le> fl (a + f x)" by simp
  from fold_mono_init [OF assms(1) this, of f ys] show ?thesis
    by (simp add: a_def)
qed

lemma round_half_even_bounds:
  "\<lfloor>x\<rfloor> \<le> round_half_even x" "round_half_even x \<le> \<lfloor>x\<rfloor> + 1"
  by (simp_all add: round_half_even_def Let_def)

lemma round_half_even_mono:
  assumes "x \<le> y"
  shows "round_half_even x \<le> round_half_even y"
proof (cases "\<lfloor>x\<rfloor> = \<lfloor>y\<rfloor>")
  case True
  from assms have "x - of_int \<lfloor>y\<rfloor> \<le> y - of_int \<lfloor>y\<rfloor>" by simp
  with True show ?thesis
    by (simp add: round_half_even_def Let_def)
next
  case False
  from assms have "\<lfloor>x\<rfloor> \<le> \<lfloor>y\<rfloor>" by (rule floor_mono)
  with False have "\<lfloor>x\<rfloor> + 1 \<le> \<lfloor>y\<rfloor>" by simp
  with round_half_even_bounds(2) [of x] round_half_even_bounds(1) [of y] show ?thesis
    by linarith
qed

lemma round_half_even_of_int: "round_half_even (of_int n) = n"
  by (simp add: round_half_even_def)

lemma py_round2_mono:
  assumes "rounding fl" and "x \<le> y"
  shows "py_round2 fl x \<le> py_round2 fl y"
proof -
  from assms(2) have "x * 100 \<le> y * 100" by simp
  then have "round_half_even (x * 100) \<le> round_half_even (y * 100)"
    by (rule round_half_even_mono)
  then have "(of_int (round_half_even (x * 100)) :: real) / 100 \<le> of_int (round_half_even (y * 100)) / 100"
    by (simp add: divide_right_mono)
  then show ?thesis
    unfolding py_round2_def by (rule fl_mono [OF assms(1)])
qed

lemma py_round2_100: "rounding fl \<Longrightarrow> py_round2 fl 100 = 100"
proof -
  assume r: "rounding fl"
  have "round_half_even (100 * 100) = 10000"
    using round_half_even_of_int [of 10000] by simp
  with r show ?thesis
    by (simp add: py_round2_def rounding_def)
qed

lemma score_of_total_mono:
  assumes "rounding fl" and "t \<le> t'"
  shows "score_of_total fl n t \<le> score_of_total fl n t'"
proof (cases "n > 0")
  case False
  then show ?thesis by (simp add: score_of_total_def)
next
  case True
  define s where "s = fl (fl (t / of_nat n) * 20)"
  define s' where "s' = fl (fl (t' / of_nat n) * 20)"
  from assms(2) True have "t / of_nat n \<le> t' / of_nat n"
    by (simp add: divide_right_mono)
  then have "fl (t / of_nat n) \<le> fl (t' / of_nat n)"
    by (rule fl_mono [OF assms(1)])
  then have "fl (t / of_nat n) * 20 \<le> fl (t' / of_nat n) * 20"
    by simp
  then have le: "s \<le> s'"
    unfolding s_def s'_def by (rule fl_mono [OF assms(1)])
  have eq: "score_of_total fl n t = (if s < 100 then py_round2 fl s else 100)"
      "score_of_total fl n t' = (if s' < 100 then py_round2 fl s' else 100)"
    using True by (simp_all add: score_of_total_def s_def s'_def)
  show ?thesis
  proof (cases "s' < 100")
    case True
    with le have "s < 100" by simp
    with True eq py_round2_mono [OF assms(1) le] show ?thesis by simp
  next
    case False
    show ?thesis
    proof (cases "s < 100")
      case True
      then have "py_round2 fl s \<le> py_round2 fl 100"
        by (intro py_round2_mono [OF assms(1)]) simp
      with py_round2_100 [OF assms(1)] True False eq show ?thesis by simp
    next
      case False
      with \<open>\<not> s' < 100\<close> eq show ?thesis by simp
    qed
  qed
qed

lemma weight_nonneg:
  assumes "rounding fl"
  shows "0 \<le> weight_of fl cat"
proof -
  have "0 \<le> fl x" if "0 \<le> x" for x
    using that by (rule fl_nonneg [OF assms])
  then show ?thesis
    by (simp add: weight_of_def risk_weights_def)
qed

lemma risk_score_nonneg:
  assumes "rounding fl" and "valid_risk r"
  shows "0 \<le> risk_score_of fl r"
proof -
  from assms(2) obtain sc where sc: "RISK_LEVELS_score (get_or (severity r) ''MEDIUM'') = Some sc"
    by (auto simp: valid_risk_def)
  then have "0 \<le> sc"
    by (auto simp: RISK_LEVELS_score_def split: if_splits)
  with weight_nonneg [OF assms(1)] have "0 \<le> of_int sc * weight_of fl (get_or (category r) ''other'')"
    by simp
  from fl_nonneg [OF assms(1) this] sc show ?thesis
    by (simp add: risk_score_of_def)
qed

lemma all_risks_append: "all_risks (xs @ ys) = all_risks xs @ all_risks ys"
  by (simp add: all_risks_def)

lemma all_risks_Cons: "all_risks (c # cs) = get_or (risks c) [] @ all_risks cs"
  by (simp add: all_risks_def)

text \<open>
  Claim C6. Let the assessment of a clause list return a result, and let one more
  HIGH-severity finding, of any of the nine categories or \<open>other\<close> (also the default of a
  finding without category), be appended to the findings of one of the clauses. Then the
  assessment of the new list, which has as many clauses, returns a result too, and its
  overall score is not smaller. This holds for exact arithmetic and for every rounding of
  the float operations that is monotone, idempotent and exact on 0 and 100.
\<close>

theorem score_monotone_in_high_finding:
  assumes "rounding fl"
    and "severity new = Some ''HIGH''"
    and "get_or (category new) ''other'' \<in>
           {''penalty_clauses'', ''indemnity'', ''unilateral_termination'', ''arbitration'',
            ''auto_renewal'', ''non_compete'', ''payment_terms'', ''liability'',
            ''confidentiality'', ''other''}"
    and "assess_contract_risk fl (pre @ c # post) llm_risks = Inr r"
  shows "\<exists>r'. assess_contract_risk fl
                (pre @ c\<lparr>risks := Some (get_or (risks c) [] @ [new])\<rparr> # post) llm_risks = Inr r' \<and>
              length (pre @ c\<lparr>risks := Some (get_or (risks c) [] @ [new])\<rparr> # post) =
                length (pre @ c # post) \<and>
              overall_score r \<le> overall_score r'"
proof -
  let ?c' = "c\<lparr>risks := Some (get_or (risks c) [] @ [new])\<rparr>"
  let ?g = "\<lambda>t r. fl (t + risk_score_of fl r)"
  let ?gl = "\<lambda>t r. fl (t + llm_score_of fl r)"
  let ?xs = "all_risks pre @ get_or (risks c) []"
  let ?ys = "all_risks post"
  have old_risks: "all_risks (pre @ c # post) = ?xs @ ?ys"
    by (simp add: all_risks_append all_risks_Cons)
  have new_risks: "all_risks (pre @ ?c' # post) = ?xs @ new # ?ys"
    by (simp add: all_risks_append all_risks_Cons)
  have valid_old: "list_all valid_risk (?xs @ ?ys)"
  proof (rule ccontr)
    assume "\<not> list_all valid_risk (?xs @ ?ys)"
    then have "\<not> list_all valid_risk (all_risks (pre @ c # post))"
      unfolding old_risks .
    from assess_invalid [OF this, of fl llm_risks] assms(4) show False
      by simp
  qed
  have valid_new: "valid_risk new"
    using assms(2,3)
    by (simp add: valid_risk_def RISK_LEVELS_score_def initial_breakdown_def RISK_CATEGORIES_def)
  from valid_old valid_new have "list_all valid_risk (?xs @ new # ?ys)"
    by simp
  then have "list_all valid_risk (all_risks (pre @ ?c' # post))"
    by (simp only: new_risks)
  from assess_valid [OF this, of fl llm_risks] obtain r' where
    r': "assess_contract_risk fl (pre @ ?c' # post) llm_risks = Inr r'"
        "overall_score r' = score_of_total fl (length (pre @ ?c' # post))
           (foldl ?gl (foldl ?g 0 (all_risks (pre @ ?c' # post))) (get_or llm_risks []))"
    by blast
  from valid_old have "list_all valid_risk (all_risks (pre @ c # post))"
    by (simp only: old_risks)
  from assess_valid [OF this, of fl llm_risks] assms(4) have
    r: "overall_score r = score_of_total fl (length (pre @ c # post))
           (foldl ?gl (foldl ?g 0 (all_risks (pre @ c # post))) (get_or llm_risks []))"
    by auto
  have len: "length (pre @ ?c' # post) = length (pre @ c # post)"
    by simp
  from assms(1) have zero: "fl 0 = 0"
    by (simp add: rounding_def)
  from risk_score_nonneg [OF assms(1) valid_new] have nonneg: "0 \<le> risk_score_of fl new" .
  have "foldl ?g 0 (?xs @ ?ys) \<le> foldl ?g 0 (?xs @ new # ?ys)"
    using assms(1) zero nonneg
    by (rule fold_insert [where fl = fl and t = 0 and f = "risk_score_of fl" and x = new])
  then have "foldl ?g 0 (all_risks (pre @ c # post)) \<le> foldl ?g 0 (all_risks (pre @ ?c' # post))"
    by (simp only: old_risks new_risks)
  from fold_mono_init [OF assms(1) this, of "llm_score_of fl" "get_or llm_risks []"]
  have "foldl ?gl (foldl ?g 0 (all_risks (pre @ c # post))) (get_or llm_risks [])
      \<le> foldl ?gl (foldl ?g 0 (all_risks (pre @ ?c' # post))) (get_or llm_risks [])" .
  from score_of_total_mono [OF assms(1) this, of "length (pre @ c # post)"]
  have "overall_score r \<le> overall_score r'"
    by (simp only: r r'(2) len)
  with r'(1) len show ?thesis
    by blast
qed

theorem score_monotone_in_high_finding_witness:
  "rounding (\<lambda>x. x) \<and>
   severity liability_finding = Some ''HIGH'' \<and>
   get_or (category liability_finding) ''other'' \<in>
           {''penalty_clauses'', ''indemnity'', ''unilateral_termination'', ''arbitration'',
            ''auto_renewal'', ''non_compete'', ''payment_terms'', ''liability'',
            ''confidentiality'', ''other''} \<and>
   (\<exists>r r'.
      assess_contract_risk (\<lambda>x. x) ([] @ plain_clause # [short_clause]) None = Inr r \<and>
      assess_contract_risk (\<lambda>x. x)
        ([] @ plain_clause\<lparr>risks := Some (get_or (risks plain_clause) [] @ [liability_finding])\<rparr>
           # [short_clause]) None = Inr r' \<and>
      overall_score r = 45 \<and> overall_score r' = 93 \<and>
      overall_score r \<le> overall_score r')"
proof -
  have h1: "rounding (\<lambda>x. x)"
    by (simp add: rounding_def mono_def)
  have h2: "severity liability_finding = Some ''HIGH''"
    by (simp add: liability_finding_def)
  have h3: "get_or (category liability_finding) ''other'' \<in>
           {''penalty_clauses'', ''indemnity'', ''unilateral_termination'', ''arbitration'',
            ''auto_renewal'', ''non_compete'', ''payment_terms'', ''liability'',
            ''confidentiality'', ''other''}"
    by (simp add: liability_finding_def)
  have "\<not> isl (assess_contract_risk (\<lambda>x. x) ([] @ plain_clause # [short_clause]) None)"
    by code_simp
  then obtain r where r: "assess_contract_risk (\<lambda>x. x) ([] @ plain_clause # [short_clause]) None = Inr r"
    by (cases "assess_contract_risk (\<lambda>x. x) ([] @ plain_clause # [short_clause]) None") simp_all
  have "overall_score (projr (assess_contract_risk (\<lambda>x. x) ([] @ plain_clause # [short_clause]) None)) = 45"
    by code_simp
  with r have e1: "overall_score r = 45"
    by simp
  from score_monotone_in_high_finding [OF h1 h2 h3 r] obtain r' where
    r': "assess_contract_risk (\<lambda>x. x)
        ([] @ plain_clause\<lparr>risks := Some (get_or (risks plain_clause) [] @ [liability_finding])\<rparr>
           # [short_clause]) None = Inr r'"
        "overall_score r \<le> overall_score r'"
    by blast
  have "overall_score (projr (assess_contract_risk (\<lambda>x. x)
        ([] @ plain_clause\<lparr>risks := Some (get_or (risks plain_clause) [] @ [liability_finding])\<rparr>
           # [short_clause]) None)) = 93"
    by code_simp
  with r'(1) have e2: "overall_score r' = 93"
    by simp
  from h1 h2 h3 r r' e1 e2 show ?thesis
    by blast
qed

text \<open>
  Claim C10. When the findings of the clauses are processed without an exception, the
  assessment returns a result whatever the LLM risks are. A risk of the LLM list whose
  severity string is none of LOW, MEDIUM and HIGH is recorded in the breakdown under the
  category inferred from its type, with that severity string as it came and with the
  score 2 times the weight of the category; this score is what its loop step adds to the
  running total.
\<close>

theorem llm_unknown_severity_scored_as_medium:
  assumes "list_all valid_risk (all_risks analyzed_clauses)"
    and "risk \<in> set llm_risks"
    and "l_severity risk = Some sev"
    and "sev \<notin> {''LOW'', ''MEDIUM'', ''HIGH''}"
  shows "\<exists>r. assess_contract_risk fl analyzed_clauses (Some llm_risks) = Inr r \<and>
           \<lparr>b_clause_id = ''LLM Analysis'',
            b_risk_type = get_or (l_type risk) ''General Risk'',
            b_severity = sev,
            score = fl (2 * weight_of fl (categorize_llm_risk (get_or (l_type risk) ''General Risk''))),
            b_description = get_or (l_description risk) ''''\<rparr>
           \<in> set (get_or (map_of (risk_breakdown r)
                      (categorize_llm_risk (get_or (l_type risk) ''General Risk''))) []) \<and>
           (\<forall>total bd. map fst bd = map fst initial_breakdown \<longrightarrow>
              (\<exists>bd'. llm_step fl (total, bd) risk =
                 Inr (fl (total + fl (2 * weight_of fl
                        (categorize_llm_risk (get_or (l_type risk) ''General Risk'')))), bd')))"
proof -
  from assms(3,4) have "RISK_LEVELS_score (get_or (l_severity risk) ''MEDIUM'') = None"
    by (simp add: RISK_LEVELS_score_def)
  then have sc: "llm_score_of fl risk =
      fl (2 * weight_of fl (categorize_llm_risk (get_or (l_type risk) ''General Risk'')))"
    by (simp add: llm_score_of_def)
  from assess_valid [OF assms(1), of fl "Some llm_risks"] obtain r where
    r: "assess_contract_risk fl analyzed_clauses (Some llm_risks) = Inr r"
       "\<forall>x \<in> set llm_risks. llm_entry fl x \<in> set (get_or (map_of (risk_breakdown r) (llm_category x)) [])"
    by auto
  from r(2) assms(2) have "llm_entry fl risk \<in> set (get_or (map_of (risk_breakdown r) (llm_category risk)) [])"
    by blast
  then have entry: "\<lparr>b_clause_id = ''LLM Analysis'',
            b_risk_type = get_or (l_type risk) ''General Risk'',
            b_severity = sev,
            score = fl (2 * weight_of fl (categorize_llm_risk (get_or (l_type risk) ''General Risk''))),
            b_description = get_or (l_description risk) ''''\<rparr>
           \<in> set (get_or (map_of (risk_breakdown r)
                      (categorize_llm_risk (get_or (l_type risk) ''General Risk''))) [])"
    using assms(3) by (simp add: llm_entry_def llm_category_def sc)
  have step: "\<exists>bd'. llm_step fl (total, bd) risk =
                 Inr (fl (total + fl (2 * weight_of fl
                        (categorize_llm_risk (get_or (l_type risk) ''General Risk'')))), bd')"
    if "map fst bd = map fst initial_breakdown" for total bd
  proof -
    from that have "map fst (snd (total, bd)) = map fst initial_breakdown" by simp
    from llm_step_ok [OF this, of fl risk] show ?thesis
      by (auto simp: sc)
  qed
  from r(1) entry step show ?thesis
    by blast
qed

theorem llm_unknown_severity_scored_as_medium_witness:
  "list_all valid_risk (all_risks [short_clause]) \<and>
   critical_llm_risk \<in> set [critical_llm_risk] \<and>
   l_severity critical_llm_risk = Some ''CRITICAL'' \<and>
   ''CRITICAL'' \<notin> {''LOW'', ''MEDIUM'', ''HIGH''} \<and>
   categorize_llm_risk (get_or (l_type critical_llm_risk) ''General Risk'') = ''payment_terms'' \<and>
   weight_of (\<lambda>x. x) ''payment_terms'' = 12 / 10 \<and>
   (\<exists>r. assess_contract_risk (\<lambda>x. x) [short_clause] (Some [critical_llm_risk]) = Inr r \<and>
        \<lparr>b_clause_id = ''LLM Analysis'',
         b_risk_type = ''Late payment exposure'',
         b_severity = ''CRITICAL'',
         score = 24 / 10,
         b_description = ''Interest accrues without a cap''\<rparr>
        \<in> set (get_or (map_of (risk_breakdown r) ''payment_terms'') []))"
proof -
  have h1: "list_all valid_risk (all_risks [short_clause])"
    by (simp add: all_risks_def short_clause_def valid_risk_def RISK_LEVELS_score_def
        initial_breakdown_def RISK_CATEGORIES_def)
  have h2: "critical_llm_risk \<in> set [critical_llm_risk]"
    by simp
  have h3: "l_severity critical_llm_risk = Some ''CRITICAL''"
    by (simp add: critical_llm_risk_def)
  have h4: "''CRITICAL'' \<notin> {''LOW'', ''MEDIUM'', ''HIGH''}"
    by simp
  have cat: "categorize_llm_risk (get_or (l_type critical_llm_risk) ''General Risk'') = ''payment_terms''"
    by code_simp
  have w: "weight_of (\<lambda>x. x) ''payment_terms'' = 12 / 10"
    by (simp add: weight_of_def risk_weights_def)
  from llm_unknown_severity_scored_as_medium [OF h1 h2 h3 h4, of "\<lambda>x. x"] obtain r where
    r: "assess_contract_risk (\<lambda>x. x) [short_clause] (Some [critical_llm_risk]) = Inr r"
       "\<lparr>b_clause_id = ''LLM Analysis'',
            b_risk_type = get_or (l_type critical_llm_risk) ''General Risk'',
            b_severity = ''CRITICAL'',
            score = 2 * weight_of (\<lambda>x. x) (categorize_llm_risk (get_or (l_type critical_llm_risk) ''General Risk'')),
            b_description = get_or (l_description critical_llm_risk) ''''\<rparr>
           \<in> set (get_or (map_of (risk_breakdown r)
                      (categorize_llm_risk (get_or (l_type critical_llm_risk) ''General Risk''))) [])"
    by blast
  from r(2) have "\<lparr>b_clause_id = ''LLM Analysis'',
         b_risk_type = ''Late payment exposure'',
         b_severity = ''CRITICAL'',
         score = 24 / 10,
         b_description = ''Interest accrues without a cap''\<rparr>
        \<in> set (get_or (map_of (risk_breakdown r) ''payment_terms'') [])"
    unfolding cat w by (simp add: critical_llm_risk_def)
  with h1 h2 h3 h4 cat w r(1) show ?thesis
    by blast
qed

section \<open>Evaluation of the character classes\<close>

text \<open>The word characters, decided on the bits of the character code.\<close>

lemma is_word_Char [code]:
  "is_word (Char b0 b1 b2 b3 b4 b5 b6 b7) \<longleftrightarrow>
     (if b7 then (if b6 then (if b5 then (if b4 then (if b3 then True else (if b2 then (if b1 then \<not> b0 else True) else True)) else True) else (if b4 then (if b3 then True else (if b2 then (if b1 then \<not> b0 else True) else True)) else True)) else (if b5 then (if b4 then (if b3 then (if b2 then (if b1 then \<not> b0 else True) else (if b1 then \<not> b0 else b0)) else (if b2 then (if b1 then False else b0) else b1)) else (if b3 then (if b2 then False else (if b1 then \<not> b0 else False)) else False)) else False)) else (if b6 then (if b5 then (if b4 then (if b3 then (if b2 then False else (if b1 then \<not> b0 else True)) else True) else (if b3 then True else (if b2 then True else (if b1 then True else b0)))) else (if b4 then (if b3 then (if b2 then (if b1 then b0 else False) else (if b1 then \<not> b0 else True)) else True) else (if b3 then True else (if b2 then True else (if b1 then True else b0))))) else (if b5 then (if b4 then (if b3 then (if b2 then False else \<not> b1) else True) else False) else False)))"
  by (cases b0; cases b1; cases b2; cases b3; cases b4; cases b5; cases b6; cases b7)
     (simp_all add: is_word_def word_code_def code_def)

section \<open>Properties of the risk detector\<close>

lemma lower_liability_scenario:
  "lower ''Vendor's liability shall be unlimited for any damages arising from this agreement.'' =
     ''vendor's liability shall be unlimited for any damages arising from this agreement.''"
  by code_simp

lemma patterns_liability_scenario:
  "pattern_risks risk_patterns
     ''vendor's liability shall be unlimited for any damages arising from this agreement.'' = []"
  by code_simp

lemma phrases_liability_scenario:
  "py_in ''without cause'' ''vendor's liability shall be unlimited for any damages arising from this agreement.'' = False"
  "py_in ''at will'' ''vendor's liability shall be unlimited for any damages arising from this agreement.'' = False"
  "py_in ''advance'' ''vendor's liability shall be unlimited for any damages arising from this agreement.'' = False"
  "py_in ''upfront'' ''vendor's liability shall be unlimited for any damages arising from this agreement.'' = False"
  by code_simp+

lemma lower_liability_direct:
  "lower ''Vendor shall bear unlimited liability for any damages arising from this agreement.'' =
     ''vendor shall bear unlimited liability for any damages arising from this agreement.''"
  by code_simp

lemma patterns_liability_direct:
  "pattern_risks risk_patterns
     ''vendor shall bear unlimited liability for any damages arising from this agreement.'' = [\<lparr>risk_type = Some ''Unlimited Liability'', severity = Some ''HIGH'',
       category = Some ''liability'',
       description = Some ''Clause contains unlimited liability language''\<rparr>]"
  by code_simp

lemma phrases_liability_direct:
  "py_in ''without cause'' ''vendor shall bear unlimited liability for any damages arising from this agreement.'' = False"
  "py_in ''at will'' ''vendor shall bear unlimited liability for any damages arising from this agreement.'' = False"
  "py_in ''advance'' ''vendor shall bear unlimited liability for any damages arising from this agreement.'' = False"
  "py_in ''upfront'' ''vendor shall bear unlimited liability for any damages arising from this agreement.'' = False"
  by code_simp+

lemma lower_termination_scenario:
  "lower ''The Company may terminate this agreement at any time at its sole discretion.'' =
     ''the company may terminate this agreement at any time at its sole discretion.''"
  by code_simp

lemma patterns_termination_scenario:
  "pattern_risks risk_patterns
     ''the company may terminate this agreement at any time at its sole discretion.'' = []"
  by code_simp

lemma phrases_termination_scenario:
  "py_in ''without cause'' ''the company may terminate this agreement at any time at its sole discretion.'' = False"
  "py_in ''at will'' ''the company may terminate this agreement at any time at its sole discretion.'' = False"
  "py_in ''advance'' ''the company may terminate this agreement at any time at its sole discretion.'' = False"
  "py_in ''upfront'' ''the company may terminate this agreement at any time at its sole discretion.'' = False"
  by code_simp+

lemma lower_termination_direct:
  "lower ''The Company may terminate at any time at its sole discretion.'' =
     ''the company may terminate at any time at its sole discretion.''"
  by code_simp

lemma patterns_termination_direct:
  "pattern_risks risk_patterns
     ''the company may terminate at any time at its sole discretion.'' = [\<lparr>risk_type = Some ''Unilateral Termination'', severity = Some ''HIGH'',
       category = Some ''unilateral_termination'',
       description = Some ''Clause contains unilateral termination language''\<rparr>]"
  by code_simp

lemma phrases_termination_direct:
  "py_in ''without cause'' ''the company may terminate at any time at its sole discretion.'' = False"
  "py_in ''at will'' ''the company may terminate at any time at its sole discretion.'' = False"
  "py_in ''advance'' ''the company may terminate at any time at its sole discretion.'' = False"
  "py_in ''upfront'' ''the company may terminate at any time at its sole discretion.'' = False"
  by code_simp+

text \<open>
  Claim C2, as amended. For the clause text of the scenario the detector returns no
  finding, whatever the clause type: \<open>unlimited\<close> is followed by \<open>for\<close>, and the pattern of
  Unlimited Liability wants \<open>liability\<close>, \<open>damages\<close> or \<open>obligation\<close> right after it. Where
  \<open>unlimited\<close> is directly followed by \<open>liability\<close>, the detector returns exactly the one
  finding Unlimited Liability, HIGH, liability.
\<close>

theorem unlimited_liability_scenario:
  "detect_clause_risks
     ''Vendor's liability shall be unlimited for any damages arising from this agreement.'' ctype = [] \<and>
   detect_clause_risks
     ''Vendor shall bear unlimited liability for any damages arising from this agreement.'' ctype =
     [\<lparr>risk_type = Some ''Unlimited Liability'', severity = Some ''HIGH'',
       category = Some ''liability'',
       description = Some ''Clause contains unlimited liability language''\<rparr>]"
  unfolding detect_clause_risks_def Let_def
    lower_liability_scenario patterns_liability_scenario phrases_liability_scenario
    lower_liability_direct patterns_liability_direct phrases_liability_direct
  by simp

theorem unlimited_liability_scenario_witness:
  "detect_clause_risks
     ''Vendor's liability shall be unlimited for any damages arising from this agreement.'' ''Liability'' = [] \<and>
   detect_clause_risks
     ''Vendor shall bear unlimited liability for any damages arising from this agreement.'' ''Liability'' =
     [\<lparr>risk_type = Some ''Unlimited Liability'', severity = Some ''HIGH'',
       category = Some ''liability'',
       description = Some ''Clause contains unlimited liability language''\<rparr>]"
  by (rule unlimited_liability_scenario)

theorem unlimited_liability_scenario_counterexample:
  "detect_clause_risks
     ''Vendor's liability shall be unlimited for any damages arising from this agreement.''
     ''Liability'' = []"
  unfolding detect_clause_risks_def Let_def
    lower_liability_scenario patterns_liability_scenario phrases_liability_scenario
  by simp

text \<open>
  Claim C3, as amended. For the clause text of the scenario the detector returns no
  finding, with the type Termination and with any other type: the pattern of Unilateral
  Termination wants \<open>at\<close> or \<open>with\<close> right after \<open>terminate\<close>, where the text has
  \<open>this agreement\<close>, and the rule for the type Termination does not fire. Where \<open>at any
  time\<close> directly follows \<open>terminate\<close>, the detector returns exactly the one finding
  Unilateral Termination, HIGH, unilateral_termination.
\<close>

theorem unilateral_termination_scenario:
  "detect_clause_risks
     ''The Company may terminate this agreement at any time at its sole discretion.'' ctype = [] \<and>
   detect_clause_risks
     ''The Company may terminate at any time at its sole discretion.'' ctype =
     [\<lparr>risk_type = Some ''Unilateral Termination'', severity = Some ''HIGH'',
       category = Some ''unilateral_termination'',
       description = Some ''Clause contains unilateral termination language''\<rparr>]"
  unfolding detect_clause_risks_def Let_def
    lower_termination_scenario patterns_termination_scenario phrases_termination_scenario
    lower_termination_direct patterns_termination_direct phrases_termination_direct
  by simp

theorem unilateral_termination_scenario_witness:
  "detect_clause_risks
     ''The Company may terminate this agreement at any time at its sole discretion.'' ''Termination'' = [] \<and>
   detect_clause_risks
     ''The Company may terminate at any time at its sole discretion.'' ''Termination'' =
     [\<lparr>risk_type = Some ''Unilateral Termination'', severity = Some ''HIGH'',
       category = Some ''unilateral_termination'',
       description = Some ''Clause contains unilateral termination language''\<rparr>]"
  by (rule unilateral_termination_scenario)

theorem unilateral_termination_scenario_counterexample:
  "detect_clause_risks
     ''The Company may terminate this agreement at any time at its sole discretion.''
     ''Termination'' = []"
  unfolding detect_clause_risks_def Let_def
    lower_termination_scenario patterns_termination_scenario phrases_termination_scenario
  by simp

section \<open>Properties of the clause segmenter\<close>

lemma split_loop_nonempty: "split_loop cur s \<noteq> []"
  by (induction cur s rule: split_loop.induct) auto

lemma join_blank_Cons: "ps \<noteq> [] \<Longrightarrow> join_blank (x # ps) = x @ [CHR 0x0A, CHR 0x0A] @ join_blank ps"
  by (cases ps) simp_all

lemma join_split_loop: "join_blank (split_loop cur s) = cur @ s"
  by (induction cur s rule: split_loop.induct)
     (simp_all add: join_blank_Cons split_loop_nonempty)

lemma join_split_blank_lines: "join_blank (split_blank_lines s) = s"
  by (simp add: split_blank_lines_def join_split_loop)

lemma paragraphs_loop_enumerate:
  "paragraphs_loop i paragraphs =
     map (\<lambda>ip. \<lparr>s_clause_id = ''P'' @ str_nat (fst ip + 1), s_text = strip (snd ip),
                  s_type = ''paragraph''\<rparr>)
       (filter (\<lambda>ip. 50 < length (strip (snd ip))) (enumerate i paragraphs))"
proof (induction paragraphs arbitrary: i)
  case Nil
  show ?case by simp
next
  case (Cons para paragraphs)
  have "strip para \<noteq> [] \<and> 50 < length (strip para) \<longleftrightarrow> 50 < length (strip para)"
    by auto
  with Cons.IH [of "i + 1"] show ?case
    by simp
qed

text \<open>
  Claim C7, as amended. When neither the numbered nor the lettered pattern matches, the
  clauses are the paragraphs between blank lines whose stripped text is longer than 50
  characters, in their order; a paragraph of 50 characters or fewer is discarded. The id
  of a clause is P followed by the position of its paragraph among all the paragraphs,
  counted from 1, the discarded ones included; its text is the stripped paragraph.
\<close>

theorem paragraph_fallback:
  assumes "re_finditer numbered_pattern txt = []"
    and "re_finditer lettered_pattern txt = []"
  shows "extract_clauses txt =
           map (\<lambda>ip. \<lparr>s_clause_id = ''P'' @ str_nat (fst ip + 1), s_text = strip (snd ip),
                        s_type = ''paragraph''\<rparr>)
             (filter (\<lambda>ip. 50 < length (strip (snd ip)))
                (enumerate 0 (split_blank_lines txt)))"
  using assms by (simp add: extract_clauses_def paragraphs_loop_enumerate)

lemma no_pattern_two_paragraph:
  "re_finditer numbered_pattern two_paragraph_document = []"
  "re_finditer lettered_pattern two_paragraph_document = []"
  by code_simp+

lemma extract_two_paragraph:
  "extract_clauses two_paragraph_document =
     [\<lparr>s_clause_id = ''P2'',
       s_text = ''The Vendor shall deliver the goods within ten days of the order date.'',
       s_type = ''paragraph''\<rparr>]"
  by code_simp

theorem paragraph_fallback_witness:
  "re_finditer numbered_pattern two_paragraph_document = [] \<and>
   re_finditer lettered_pattern two_paragraph_document = [] \<and>
   extract_clauses two_paragraph_document =
     map (\<lambda>ip. \<lparr>s_clause_id = ''P'' @ str_nat (fst ip + 1), s_text = strip (snd ip),
                  s_type = ''paragraph''\<rparr>)
       (filter (\<lambda>ip. 50 < length (strip (snd ip)))
          (enumerate 0 (split_blank_lines two_paragraph_document))) \<and>
   extract_clauses two_paragraph_document =
     [\<lparr>s_clause_id = ''P2'',
       s_text = ''The Vendor shall deliver the goods within ten days of the order date.'',
       s_type = ''paragraph''\<rparr>]"
  using paragraph_fallback [OF no_pattern_two_paragraph] no_pattern_two_paragraph
    extract_two_paragraph
  by (intro conjI)

theorem paragraph_of_fifty_counterexample:
  "length fifty_document = 50 \<and>
   split_blank_lines fifty_document = [fifty_document] \<and>
   strip fifty_document = fifty_document \<and>
   re_finditer numbered_pattern fifty_document = [] \<and>
   re_finditer lettered_pattern fifty_document = [] \<and>
   extract_clauses fifty_document = [] \<and>
   map s_clause_id (extract_clauses two_paragraph_document) = [''P2'']"
  by code_simp

text \<open>
  Claim C1. In the sample document the token \<open>1.\<close> starts a line and is followed by the
  capitalised heading \<open>Payment Terms\<close> and a body line. The numbered pattern finds no
  clause there at all: the text of a clause cannot cross a line break, and the heading
  line is followed neither by a numbered token nor by an all-caps heading nor by the end
  of the document. The lettered pattern finds nothing either, so the document comes back
  as the single paragraph clause P1.
\<close>

theorem numbered_clause_with_body_is_lost:
  "re_finditer numbered_pattern multiline_document = [] \<and>
   extract_clauses multiline_document =
     [\<lparr>s_clause_id = ''P1'',
       s_text = ''1. Payment Terms'' @ [CHR 0x0A] @
                ''The Buyer shall pay all invoices within thirty days.'' @ [CHR 0x0A] @
                ''2. Term'' @ [CHR 0x0A] @ ''One year.'',
       s_type = ''paragraph''\<rparr>]"
  by code_simp

end
